theory Spec2Isabelle
  imports Main
begin

section \<open>The world the two scripts run in\<close>

text \<open>
  Both scripts are sequences of effects: they print, test paths for existence, delete
  files and directories, and spawn \<^verbatim>\<open>pixi install\<close>. The model threads a world
  (the part of the filesystem the scripts look at, and everything they did so far) through
  every function, and takes the behaviour of the operating system (the external tool, and
  whether a deletion raises) as a parameter.
\<close>

text \<open>
  The exceptions the library calls can raise. \<open>OSError\<close> stands for every exception
  class that is neither \<open>subprocess.TimeoutExpired\<close>, \<open>FileNotFoundError\<close> nor
  \<open>subprocess.CalledProcessError\<close> (whose payload is the captured stderr).
\<close>

datatype py_exn = TimeoutExpired | FileNotFoundError | CalledProcessError string | OSError

text \<open>
  A fixture is named by its directory name. \<open>root_exists\<close>: \<^verbatim>\<open>tests/data/pixi\<close>
  exists; \<open>glob_manifests\<close>: the directories \<^verbatim>\<open>glob("*/pyproject.toml")\<close> enumerates
  there, in enumeration order; \<open>dirs\<close>: the names that exist beside the second script;
  \<open>locks\<close>: the directories holding a \<^verbatim>\<open>pixi.lock\<close>; \<open>caches\<close>: the directories
  holding a \<^verbatim>\<open>.pixi\<close> folder.
\<close>

record filesys =
  root_exists :: bool
  glob_manifests :: "string list"
  dirs :: "string set"
  locks :: "string set"
  caches :: "string set"

text \<open>The keyword arguments of one \<^verbatim>\<open>subprocess.run\<close> call.\<close>

record run_call =
  args :: "string list"
  cwd :: string
  capture_output :: bool
  text_mode :: bool
  timeout :: "nat option"
  check :: bool

text \<open>
  The lines the scripts print, one constructor per \<^verbatim>\<open>print\<close> statement (the
  formatted values are the constructor's arguments).
\<close>

datatype msg =
    FixturesDirNotFound
  | NoFilesFound
  | FoundFiles nat
  | Processing string
  | Location string
  | LockExists
  | GeneratingLock
  | LockGenerated
  | GenFailed
  | ErrorText string
  | TimeoutNotice
  | PixiNotFound
  | VisitPixi
  | CleaningUp
  | DeletedCache string
  | DeleteFailed string
  | NoCache string
  | CleanSummary nat nat
  | Searching
  | NothingToProcess
  | Aborted
  | Rule
  | Complete
  | SuccessCount nat
  | FailedCount nat
  | SomeFailed
  | DirNotFound string
  | GeneratingFor string
  | GeneratedIn string
  | FailedIn string
  | ErrorB string
  | PixiNotFoundB
  | InstallCurl
  | AllGenerated

text \<open>
  What a script did, in order. \<open>Run c f\<close>: \<^verbatim>\<open>subprocess.run\<close> was called with the
  arguments \<open>c\<close> while the filesystem was \<open>f\<close>. \<open>Unlink d f\<close>: \<^verbatim>\<open>unlink()\<close> was
  called on the lock file of \<open>d\<close>. \<open>Rmtree d f\<close>: \<^verbatim>\<open>shutil.rmtree\<close> was called on
  the \<^verbatim>\<open>.pixi\<close> folder of \<open>d\<close>.
\<close>

datatype event =
  Print msg | Unlink string filesys | Run run_call filesys | Rmtree string filesys

record world =
  fs :: filesys
  out :: "event list"

definition emit :: "event \<Rightarrow> world \<Rightarrow> world" where
  "emit ev w = w\<lparr>out := out w @ [ev]\<rparr>"

definition fresh :: "filesys \<Rightarrow> world" where
  "fresh f = \<lparr>fs = f, out = []\<rparr>"

text \<open>
  What spawning the tool does: it runs to an exit code, with its stderr and the filesystem
  it leaves behind; or the wait runs out; or there is no such executable (nothing ran, the
  filesystem is as it was); or the spawn fails otherwise.
\<close>

datatype spawn = Completed int string filesys | Expired filesys | NoExecutable | SpawnFailed

record env =
  pixi :: "run_call \<Rightarrow> filesys \<Rightarrow> spawn"
  unlink_fails :: "string \<Rightarrow> filesys \<Rightarrow> bool"
  rmtree_fails :: "string \<Rightarrow> filesys \<Rightarrow> bool"

text \<open>
  \<^verbatim>\<open>subprocess.run\<close>: a missing executable raises \<open>FileNotFoundError\<close>, an exceeded
  wait raises \<open>TimeoutExpired\<close>, and with \<^verbatim>\<open>check=True\<close> an exit code other than 0
  raises \<open>CalledProcessError\<close>.
\<close>

definition subprocess_run ::
  "env \<Rightarrow> run_call \<Rightarrow> world \<Rightarrow> (py_exn + int \<times> string) \<times> world" where
  "subprocess_run e c w =
     (let w1 = emit (Run c (fs w)) w in
      case pixi e c (fs w) of
        Completed rc err f' \<Rightarrow>
          if check c \<and> rc \<noteq> 0 then (Inl (CalledProcessError err), w1\<lparr>fs := f'\<rparr>)
          else (Inr (rc, err), w1\<lparr>fs := f'\<rparr>)
      | Expired f' \<Rightarrow> (Inl TimeoutExpired, w1\<lparr>fs := f'\<rparr>)
      | NoExecutable \<Rightarrow> (Inl FileNotFoundError, w1)
      | SpawnFailed \<Rightarrow> (Inl OSError, w1))"

text \<open>\<^verbatim>\<open>lock_file.unlink()\<close>: removes the lock file, or raises and removes nothing.\<close>

definition unlink :: "env \<Rightarrow> string \<Rightarrow> world \<Rightarrow> (py_exn + unit) \<times> world" where
  "unlink e d w =
     (let w1 = emit (Unlink d (fs w)) w in
      if unlink_fails e d (fs w) then (Inl OSError, w1)
      else (Inr (), w1\<lparr>fs := (fs w)\<lparr>locks := locks (fs w) - {d}\<rparr>\<rparr>))"

text \<open>\<^verbatim>\<open>shutil.rmtree(pixi_dir)\<close>: removes the folder, or raises.\<close>

definition rmtree :: "env \<Rightarrow> string \<Rightarrow> world \<Rightarrow> (py_exn + unit) \<times> world" where
  "rmtree e d w =
     (let w1 = emit (Rmtree d (fs w)) w in
      if rmtree_fails e d (fs w) then (Inl OSError, w1)
      else (Inr (), w1\<lparr>fs := (fs w)\<lparr>caches := caches (fs w) - {d}\<rparr>\<rparr>))"

section \<open>Variant A: \<^verbatim>\<open>scripts/generate-test-fixtures.py\<close>\<close>

definition find_pyproject_files :: "world \<Rightarrow> string list \<times> world" where
  "find_pyproject_files w =
     (if \<not> root_exists (fs w) then ([], emit (Print FixturesDirNotFound) w)
      else (glob_manifests (fs w), w))"

text \<open>
  \<^verbatim>\<open>generate_lock_files\<close> returns \<^verbatim>\<open>False\<close> or the pair of counters. One pass of
  its loop body either goes on to the next fixture with new counters, returns
  \<^verbatim>\<open>False\<close>, or lets an exception escape.
\<close>

datatype gen_result = RFalse | RCounts nat nat

datatype ctl = Next nat nat | ReturnFalse | Raise py_exn

definition install_call :: "string \<Rightarrow> run_call" where
  "install_call d =
     \<lparr>args = [''pixi'', ''install''], cwd = d, capture_output = True, text_mode = True,
      timeout = Some 300, check = False\<rparr>"

text \<open>Lines 49 to 74: the \<^verbatim>\<open>try\<close> block around the invocation and its handlers.\<close>

definition invoke_tool :: "env \<Rightarrow> string \<Rightarrow> nat \<Rightarrow> nat \<Rightarrow> world \<Rightarrow> ctl \<times> world" where
  "invoke_tool e d s f w =
     (case subprocess_run e (install_call d) (emit (Print GeneratingLock) w) of
        (Inr (rc, err), w1) \<Rightarrow>
          if rc = 0 then (Next (s + 1) f, emit (Print LockGenerated) w1)
          else (Next s (f + 1), emit (Print (ErrorText err)) (emit (Print GenFailed) w1))
      | (Inl TimeoutExpired, w1) \<Rightarrow> (Next s (f + 1), emit (Print TimeoutNotice) w1)
      | (Inl FileNotFoundError, w1) \<Rightarrow>
          (ReturnFalse, emit (Print VisitPixi) (emit (Print PixiNotFound) w1))
      | (Inl x, w1) \<Rightarrow> (Raise x, w1))"

text \<open>Lines 37 to 74: one pass of the loop, for the manifest found in directory \<open>d\<close>.\<close>

definition lock_body :: "env \<Rightarrow> string \<Rightarrow> nat \<Rightarrow> nat \<Rightarrow> world \<Rightarrow> ctl \<times> world" where
  "lock_body e d s f w =
     (let w1 = emit (Print (Location d)) (emit (Print (Processing d)) w) in
      if d \<in> locks (fs w1) then
        (case unlink e d (emit (Print LockExists) w1) of
           (Inl x, w2) \<Rightarrow> (Raise x, w2)
         | (Inr _, w2) \<Rightarrow> invoke_tool e d s f w2)
      else invoke_tool e d s f w1)"

fun lock_loop ::
  "env \<Rightarrow> string list \<Rightarrow> nat \<Rightarrow> nat \<Rightarrow> world \<Rightarrow> (py_exn + gen_result) \<times> world" where
  "lock_loop e [] s f w = (Inr (RCounts s f), w)"
| "lock_loop e (d # ds) s f w =
     (case lock_body e d s f w of
        (Next s' f', w') \<Rightarrow> lock_loop e ds s' f' w'
      | (ReturnFalse, w') \<Rightarrow> (Inr RFalse, w')
      | (Raise x, w') \<Rightarrow> (Inl x, w'))"

definition generate_lock_files ::
  "env \<Rightarrow> string list \<Rightarrow> world \<Rightarrow> (py_exn + gen_result) \<times> world" where
  "generate_lock_files e pyproject_files w =
     (if pyproject_files = [] then (Inr RFalse, emit (Print NoFilesFound) w)
      else lock_loop e pyproject_files 0 0
             (emit (Print (FoundFiles (length pyproject_files))) w))"

text \<open>
  Lines 86 to 100: one pass of the cleaner's loop. The \<^verbatim>\<open>except Exception\<close> clause
  catches whatever \<^verbatim>\<open>rmtree\<close> raises.
\<close>

definition clean_body :: "env \<Rightarrow> string \<Rightarrow> nat \<Rightarrow> nat \<Rightarrow> world \<Rightarrow> (nat \<times> nat) \<times> world" where
  "clean_body e d cleaned failed w =
     (if d \<in> caches (fs w) then
        (case rmtree e d w of
           (Inr _, w1) \<Rightarrow> ((cleaned + 1, failed), emit (Print (DeletedCache d)) w1)
         | (Inl x, w1) \<Rightarrow> ((cleaned, failed + 1), emit (Print (DeleteFailed d)) w1))
      else ((cleaned, failed), emit (Print (NoCache d)) w))"

fun clean_loop :: "env \<Rightarrow> string list \<Rightarrow> nat \<Rightarrow> nat \<Rightarrow> world \<Rightarrow> (nat \<times> nat) \<times> world" where
  "clean_loop e [] cleaned failed w = ((cleaned, failed), w)"
| "clean_loop e (d # ds) cleaned failed w =
     (case clean_body e d cleaned failed w of
        ((cleaned', failed'), w') \<Rightarrow> clean_loop e ds cleaned' failed' w')"

definition cleanup_pixi_environments ::
  "env \<Rightarrow> string list \<Rightarrow> world \<Rightarrow> (nat \<times> nat) \<times> world" where
  "cleanup_pixi_environments e pyproject_files w =
     (case clean_loop e pyproject_files 0 0 (emit (Print CleaningUp) w) of
        ((cleaned, failed), w1) \<Rightarrow>
          ((cleaned, failed), emit (Print (CleanSummary cleaned failed)) w1))"

text \<open>
  How a process ends: \<^verbatim>\<open>sys.exit(n)\<close> or falling off the end of \<open>main\<close> (status 0),
  or an exception nobody caught, which the interpreter turns into status 1.
\<close>

datatype proc_end = Exit nat | Uncaught py_exn

fun exit_status :: "proc_end \<Rightarrow> nat" where
  "exit_status (Exit n) = n"
| "exit_status (Uncaught x) = 1"

definition summary :: "nat \<Rightarrow> nat \<Rightarrow> world \<Rightarrow> world" where
  "summary s f w =
     emit (Print Rule) (emit (Print (FailedCount f)) (emit (Print (SuccessCount s))
       (emit (Print Complete) (emit (Print Rule) w))))"

text \<open>Lines 125 to 139: what \<open>main\<close> does once the counters are back.\<close>

definition report :: "env \<Rightarrow> string list \<Rightarrow> nat \<Rightarrow> nat \<Rightarrow> world \<Rightarrow> proc_end \<times> world" where
  "report e pyproject_files s f w =
     (let w1 = (if s > 0 then snd (cleanup_pixi_environments e pyproject_files w) else w);
          w2 = summary s f w1
      in if f > 0 then (Exit 1, emit (Print SomeFailed) w2) else (Exit 0, w2))"

definition main_a :: "env \<Rightarrow> world \<Rightarrow> proc_end \<times> world" where
  "main_a e w =
     (case find_pyproject_files (emit (Print Searching) w) of
        (pyproject_files, w1) \<Rightarrow>
          if pyproject_files = [] then (Exit 1, emit (Print NothingToProcess) w1)
          else
            (case generate_lock_files e pyproject_files w1 of
               (Inl x, w2) \<Rightarrow> (Uncaught x, w2)
             | (Inr RFalse, w2) \<Rightarrow> (Exit 1, emit (Print Aborted) w2)
             | (Inr (RCounts s f), w2) \<Rightarrow> report e pyproject_files s f w2))"

section \<open>Variant B: \<^verbatim>\<open>tests/data/mkdocs-deploy/generate-pixi-locks.py\<close>\<close>

definition PIXI_DIRS :: "string list" where
  "PIXI_DIRS =
     [''test-pull-request-pixi'', ''test-release-trigger-pixi'',
      ''test-package-manager-commands'']"

definition install_call_b :: "string \<Rightarrow> run_call" where
  "install_call_b d =
     \<lparr>args = [''pixi'', ''install''], cwd = d, capture_output = True, text_mode = True,
      timeout = None, check = True\<rparr>"

text \<open>
  The loop of the second script. \<open>None\<close>: the loop ran to its end; \<open>Some p\<close>: the
  process ended inside the loop.
\<close>

fun dirs_loop :: "env \<Rightarrow> string list \<Rightarrow> world \<Rightarrow> proc_end option \<times> world" where
  "dirs_loop e [] w = (None, w)"
| "dirs_loop e (d # ds) w =
     (if d \<notin> dirs (fs w) then dirs_loop e ds (emit (Print (DirNotFound d)) w)
      else
        (case subprocess_run e (install_call_b d) (emit (Print (GeneratingFor d)) w) of
           (Inr r, w1) \<Rightarrow> dirs_loop e ds (emit (Print (GeneratedIn d)) w1)
         | (Inl (CalledProcessError err), w1) \<Rightarrow>
             (Some (Exit 1), emit (Print (ErrorB err)) (emit (Print (FailedIn d)) w1))
         | (Inl FileNotFoundError, w1) \<Rightarrow>
             (Some (Exit 1), emit (Print InstallCurl) (emit (Print PixiNotFoundB) w1))
         | (Inl x, w1) \<Rightarrow> (Some (Uncaught x), w1)))"

definition main_b :: "env \<Rightarrow> world \<Rightarrow> proc_end \<times> world" where
  "main_b e w =
     (case dirs_loop e PIXI_DIRS w of
        (Some p, w1) \<Rightarrow> (p, w1)
      | (None, w1) \<Rightarrow> (Exit 0, emit (Print AllGenerated) w1))"

section \<open>Observing a run\<close>

text \<open>
  The filesystem in which the tool is invoked for fixture \<open>d\<close>, when the pass started in
  \<open>f\<close> and the deletion of the lock file (if any) did not raise.
\<close>

definition ready_fs :: "string \<Rightarrow> filesys \<Rightarrow> filesys" where
  "ready_fs d f = f\<lparr>locks := locks f - {d}\<rparr>"

text \<open>What one pass of the first script's loop does before it reaches the \<^verbatim>\<open>try\<close> block.\<close>

definition preamble :: "string \<Rightarrow> filesys \<Rightarrow> event list" where
  "preamble d f =
     [Print (Processing d), Print (Location d)] @
     (if d \<in> locks f then [Print LockExists, Unlink d f] else [])"

definition attempt :: "string \<Rightarrow> filesys \<Rightarrow> event list" where
  "attempt d f = preamble d f @ [Print GeneratingLock, Run (install_call d) (ready_fs d f)]"

text \<open>A property of every invocation, and of every lock deletion, in a list of events.\<close>

fun on_run :: "(run_call \<Rightarrow> filesys \<Rightarrow> bool) \<Rightarrow> event \<Rightarrow> bool" where
  "on_run P (Run c g) = P c g"
| "on_run P ev = True"

fun on_unlink :: "(string \<Rightarrow> filesys \<Rightarrow> bool) \<Rightarrow> event \<Rightarrow> bool" where
  "on_unlink P (Unlink d g) = P d g"
| "on_unlink P ev = True"

definition found :: "env \<Rightarrow> run_call \<Rightarrow> filesys \<Rightarrow> bool" where
  "found e = (\<lambda>c g. pixi e c g \<noteq> NoExecutable)"

definition deletable :: "env \<Rightarrow> string \<Rightarrow> filesys \<Rightarrow> bool" where
  "deletable e = (\<lambda>d g. \<not> unlink_fails e d g)"

text \<open>
  The invocations of a run and its lock deletions, in order, and whether the tool exited
  with code 0 at an invocation.
\<close>

fun runs :: "event list \<Rightarrow> (run_call \<times> filesys) list" where
  "runs [] = []"
| "runs (Run c g # evs) = (c, g) # runs evs"
| "runs (ev # evs) = runs evs"

fun unlinks :: "event list \<Rightarrow> (string \<times> filesys) list" where
  "unlinks [] = []"
| "unlinks (Unlink d g # evs) = (d, g) # unlinks evs"
| "unlinks (ev # evs) = unlinks evs"

definition tool_ok :: "env \<Rightarrow> run_call \<times> filesys \<Rightarrow> bool" where
  "tool_ok e = (\<lambda>(c, g). case pixi e c g of Completed rc err g' \<Rightarrow> rc = 0 | _ \<Rightarrow> False)"

text \<open>
  The outcome recorded for a fixture is read off the output: the line that names the
  fixture being processed, then the line that reports how its regeneration went.
\<close>

datatype outcome = Success | Failure | Timeout

definition started :: "event \<Rightarrow> string option" where
  "started ev =
     (case ev of
        Print m \<Rightarrow> (case m of Processing d \<Rightarrow> Some d | GeneratingFor d \<Rightarrow> Some d | _ \<Rightarrow> None)
      | _ \<Rightarrow> None)"

definition verdict :: "event \<Rightarrow> outcome option" where
  "verdict ev =
     (case ev of
        Print m \<Rightarrow>
          (case m of
             LockGenerated \<Rightarrow> Some Success
           | GenFailed \<Rightarrow> Some Failure
           | TimeoutNotice \<Rightarrow> Some Timeout
           | GeneratedIn d \<Rightarrow> Some Success
           | FailedIn d \<Rightarrow> Some Failure
           | _ \<Rightarrow> None)
      | _ \<Rightarrow> None)"

fun outcomes :: "string option \<Rightarrow> event list \<Rightarrow> (string \<times> outcome) list" where
  "outcomes cur [] = []"
| "outcomes cur (ev # evs) =
     (case started ev of
        Some d \<Rightarrow> outcomes (Some d) evs
      | None \<Rightarrow>
          (case (cur, verdict ev) of
             (Some d, Some v) \<Rightarrow> (d, v) # outcomes cur evs
           | _ \<Rightarrow> outcomes cur evs))"

text \<open>The fixtures the first script discovers in a filesystem.\<close>

definition discovered :: "filesys \<Rightarrow> string list" where
  "discovered g = (if root_exists g then glob_manifests g else [])"

text \<open>
  A tool is taken to be deterministic when the kind of its result in a fixture directory
  does not depend on the rest of the filesystem.
\<close>

datatype kind = KOk | KFail | KExpired | KMissing | KBroken

fun kind_of :: "spawn \<Rightarrow> kind" where
  "kind_of (Completed rc err g) = (if rc = 0 then KOk else KFail)"
| "kind_of (Expired g) = KExpired"
| "kind_of NoExecutable = KMissing"
| "kind_of SpawnFailed = KBroken"

definition deterministic :: "env \<Rightarrow> bool" where
  "deterministic e = (\<forall>c g g'. kind_of (pixi e c g) = kind_of (pixi e c g'))"

text \<open>
  The world in which the first script enters its loop: it has printed that it is
  searching and how many manifests it found.
\<close>

definition begun :: "filesys \<Rightarrow> world" where
  "begun g = \<lparr>fs = g, out = [Print Searching, Print (FoundFiles (length (glob_manifests g)))]\<rparr>"

text \<open>
  The fixture being processed after a list of events, and the lines of the final summary
  of the first script.
\<close>

fun current :: "string option \<Rightarrow> event list \<Rightarrow> string option" where
  "current cur [] = cur"
| "current cur (ev # evs) =
     current (case started ev of Some d \<Rightarrow> Some d | None \<Rightarrow> cur) evs"

definition is_summary :: "event \<Rightarrow> bool" where
  "is_summary ev =
     (case ev of
        Print m \<Rightarrow>
          (case m of
             Rule \<Rightarrow> True
           | Complete \<Rightarrow> True
           | SuccessCount n \<Rightarrow> True
           | FailedCount n \<Rightarrow> True
           | SomeFailed \<Rightarrow> True
           | _ \<Rightarrow> False)
      | _ \<Rightarrow> False)"

text \<open>
  What the loop of the first script records for the fixtures \<open>ds\<close> when it enters the
  loop in the filesystem \<open>g\<close>: one outcome for each fixture whose invocation returned or
  ran out of time, up to the first fixture (if any) at which the loop is left.
\<close>

fun classify :: "env \<Rightarrow> string list \<Rightarrow> filesys \<Rightarrow> (string \<times> outcome) list" where
  "classify e [] g = []"
| "classify e (d # ds) g =
     (if d \<in> locks g \<and> unlink_fails e d g then []
      else
        (case pixi e (install_call d) (ready_fs d g) of
           Completed rc err g' \<Rightarrow> (d, if rc = 0 then Success else Failure) # classify e ds g'
         | Expired g' \<Rightarrow> (d, Timeout) # classify e ds g'
         | NoExecutable \<Rightarrow> []
         | SpawnFailed \<Rightarrow> []))"

text \<open>Whether a lock deletion raises while the loop processes \<open>ds\<close> from \<open>g\<close>.\<close>

fun stuck :: "env \<Rightarrow> string list \<Rightarrow> filesys \<Rightarrow> bool" where
  "stuck e [] g = False"
| "stuck e (d # ds) g =
     (if d \<in> locks g \<and> unlink_fails e d g then True
      else
        (case pixi e (install_call d) (ready_fs d g) of
           Completed rc err g' \<Rightarrow> stuck e ds g'
         | Expired g' \<Rightarrow> stuck e ds g'
         | NoExecutable \<Rightarrow> False
         | SpawnFailed \<Rightarrow> False))"

text \<open>
  An invocation that ran to an exit code, and the outcome the second script prints for
  it.
\<close>

definition completed :: "env \<Rightarrow> run_call \<times> filesys \<Rightarrow> bool" where
  "completed e = (\<lambda>(c, g). case pixi e c g of Completed rc err g' \<Rightarrow> True | _ \<Rightarrow> False)"

definition judge :: "env \<Rightarrow> run_call \<times> filesys \<Rightarrow> string \<times> outcome" where
  "judge e = (\<lambda>(c, g). (cwd c, if tool_ok e (c, g) then Success else Failure))"

text \<open>The lines the cleaner prints for a fixture without a \<^verbatim>\<open>.pixi\<close> folder.\<close>

definition is_skip :: "event \<Rightarrow> bool" where
  "is_skip ev = (case ev of Print m \<Rightarrow> (case m of NoCache d \<Rightarrow> True | _ \<Rightarrow> False) | _ \<Rightarrow> False)"

text \<open>The \<^verbatim>\<open>rmtree\<close> calls of a list of events that raise.\<close>

definition is_failed_delete :: "env \<Rightarrow> event \<Rightarrow> bool" where
  "is_failed_delete e ev = (case ev of Rmtree d g \<Rightarrow> rmtree_fails e d g | _ \<Rightarrow> False)"

text \<open>
  The invocations the second script makes for the directories \<open>ds\<close> when it enters its
  loop in the filesystem \<open>g\<close>: one in each directory that exists when the loop reaches
  it, up to and including the first that does not exit with code 0.
\<close>

fun visits_b :: "env \<Rightarrow> string list \<Rightarrow> filesys \<Rightarrow> (run_call \<times> filesys) list" where
  "visits_b e [] g = []"
| "visits_b e (d # ds) g =
     (if d \<notin> dirs g then visits_b e ds g
      else
        (install_call_b d, g) #
        (case pixi e (install_call_b d) g of
           Completed rc err g' \<Rightarrow> if rc = 0 then visits_b e ds g' else []
         | Expired g' \<Rightarrow> []
         | NoExecutable \<Rightarrow> []
         | SpawnFailed \<Rightarrow> []))"

section \<open>Concrete worlds\<close>

definition fs_a :: filesys where
  "fs_a = \<lparr>root_exists = True, glob_manifests = [''a'', ''b''], dirs = {},
           locks = {''a''}, caches = {}\<rparr>"

definition fs_b :: filesys where
  "fs_b = \<lparr>root_exists = False, glob_manifests = [], dirs = set PIXI_DIRS,
           locks = {''test-pull-request-pixi''}, caches = {}\<rparr>"

definition installs :: "run_call \<Rightarrow> filesys \<Rightarrow> spawn" where
  "installs c g =
     Completed 0 [] (g\<lparr>locks := insert (cwd c) (locks g), caches := insert (cwd c) (caches g)\<rparr>)"

definition env_ok :: env where
  "env_ok = \<lparr>pixi = installs, unlink_fails = (\<lambda>d g. False), rmtree_fails = (\<lambda>d g. False)\<rparr>"

definition env_missing :: env where
  "env_missing =
     \<lparr>pixi = (\<lambda>c g. NoExecutable), unlink_fails = (\<lambda>d g. False),
      rmtree_fails = (\<lambda>d g. False)\<rparr>"

definition env_fail :: env where
  "env_fail =
     \<lparr>pixi = (\<lambda>c g. Completed 1 ''unsolvable'' g), unlink_fails = (\<lambda>d g. False),
      rmtree_fails = (\<lambda>d g. False)\<rparr>"

definition env_slow :: env where
  "env_slow =
     \<lparr>pixi = (\<lambda>c g. Expired g), unlink_fails = (\<lambda>d g. False),
      rmtree_fails = (\<lambda>d g. False)\<rparr>"

definition env_stuck :: env where
  "env_stuck = \<lparr>pixi = installs, unlink_fails = (\<lambda>d g. True), rmtree_fails = (\<lambda>d g. True)\<rparr>"


section \<open>How one pass of the first script's loop goes\<close>

lemma invoke_tool_eq:
  "invoke_tool e d s f w =
     (let evs = out w @ [Print GeneratingLock, Run (install_call d) (fs w)] in
      case pixi e (install_call d) (fs w) of
        Completed rc err f' \<Rightarrow>
          if rc = 0 then (Next (s + 1) f, \<lparr>fs = f', out = evs @ [Print LockGenerated]\<rparr>)
          else (Next s (f + 1), \<lparr>fs = f', out = evs @ [Print GenFailed, Print (ErrorText err)]\<rparr>)
      | Expired f' \<Rightarrow> (Next s (f + 1), \<lparr>fs = f', out = evs @ [Print TimeoutNotice]\<rparr>)
      | NoExecutable \<Rightarrow>
          (ReturnFalse, \<lparr>fs = fs w, out = evs @ [Print PixiNotFound, Print VisitPixi]\<rparr>)
      | SpawnFailed \<Rightarrow> (Raise OSError, \<lparr>fs = fs w, out = evs\<rparr>))"
  by (simp add: invoke_tool_def subprocess_run_def emit_def install_call_def Let_def
      split: spawn.splits)

lemma lock_body_raise:
  "d \<in> locks (fs w) \<Longrightarrow> unlink_fails e d (fs w) \<Longrightarrow>
   lock_body e d s f w = (Raise OSError, \<lparr>fs = fs w, out = out w @ preamble d (fs w)\<rparr>)"
  by (simp add: lock_body_def unlink_def emit_def preamble_def Let_def)

lemma lock_body_invoke:
  "\<not> (d \<in> locks (fs w) \<and> unlink_fails e d (fs w)) \<Longrightarrow>
   lock_body e d s f w =
     invoke_tool e d s f \<lparr>fs = ready_fs d (fs w), out = out w @ preamble d (fs w)\<rparr>"
  by (cases w) (auto simp add: lock_body_def unlink_def emit_def preamble_def Let_def
      ready_fs_def)

lemma lock_loop_cases [case_names stuck ok failed expired missing broken]:
  assumes "\<lbrakk>d \<in> locks (fs w); unlink_fails e d (fs w);
      lock_loop e (d # ds) s f w =
        (Inl OSError, \<lparr>fs = fs w, out = out w @ preamble d (fs w)\<rparr>)\<rbrakk> \<Longrightarrow> P"
    and "\<And>err f'. \<lbrakk>\<not> (d \<in> locks (fs w) \<and> unlink_fails e d (fs w));
      pixi e (install_call d) (ready_fs d (fs w)) = Completed 0 err f';
      lock_loop e (d # ds) s f w =
        lock_loop e ds (s + 1) f
          \<lparr>fs = f', out = out w @ attempt d (fs w) @ [Print LockGenerated]\<rparr>\<rbrakk> \<Longrightarrow> P"
    and "\<And>rc err f'. \<lbrakk>\<not> (d \<in> locks (fs w) \<and> unlink_fails e d (fs w));
      pixi e (install_call d) (ready_fs d (fs w)) = Completed rc err f'; rc \<noteq> 0;
      lock_loop e (d # ds) s f w =
        lock_loop e ds s (f + 1)
          \<lparr>fs = f',
           out = out w @ attempt d (fs w) @ [Print GenFailed, Print (ErrorText err)]\<rparr>\<rbrakk>
      \<Longrightarrow> P"
    and "\<And>f'. \<lbrakk>\<not> (d \<in> locks (fs w) \<and> unlink_fails e d (fs w));
      pixi e (install_call d) (ready_fs d (fs w)) = Expired f';
      lock_loop e (d # ds) s f w =
        lock_loop e ds s (f + 1)
          \<lparr>fs = f', out = out w @ attempt d (fs w) @ [Print TimeoutNotice]\<rparr>\<rbrakk> \<Longrightarrow> P"
    and "\<lbrakk>\<not> (d \<in> locks (fs w) \<and> unlink_fails e d (fs w));
      pixi e (install_call d) (ready_fs d (fs w)) = NoExecutable;
      lock_loop e (d # ds) s f w =
        (Inr RFalse,
         \<lparr>fs = ready_fs d (fs w),
          out = out w @ attempt d (fs w) @ [Print PixiNotFound, Print VisitPixi]\<rparr>)\<rbrakk>
      \<Longrightarrow> P"
    and "\<lbrakk>\<not> (d \<in> locks (fs w) \<and> unlink_fails e d (fs w));
      pixi e (install_call d) (ready_fs d (fs w)) = SpawnFailed;
      lock_loop e (d # ds) s f w =
        (Inl OSError, \<lparr>fs = ready_fs d (fs w), out = out w @ attempt d (fs w)\<rparr>)\<rbrakk>
      \<Longrightarrow> P"
  shows P
proof (cases "d \<in> locks (fs w) \<and> unlink_fails e d (fs w)")
  case True
  then show ?thesis
    by (intro assms(1)) (simp_all add: lock_body_raise)
next
  case False
  note body = lock_body_invoke [OF False, of s f]
  show ?thesis
  proof (cases "pixi e (install_call d) (ready_fs d (fs w))")
    case (Completed rc err f')
    show ?thesis
    proof (cases "rc = 0")
      case True
      with Completed False body show ?thesis
        by (intro assms(2) [of err f']) (simp_all add: invoke_tool_eq attempt_def)
    next
      case nz: False
      with Completed False body show ?thesis
        by (intro assms(3) [of rc err f']) (simp_all add: invoke_tool_eq attempt_def)
    qed
  next
    case (Expired f')
    with False body show ?thesis
      by (intro assms(4) [of f']) (simp_all add: invoke_tool_eq attempt_def)
  next
    case NoExecutable
    with False body show ?thesis
      by (intro assms(5)) (simp_all add: invoke_tool_eq attempt_def)
  next
    case SpawnFailed
    with False body show ?thesis
      by (intro assms(6)) (simp_all add: invoke_tool_eq attempt_def)
  qed
qed

lemma lock_loop_induct [case_names nil stuck ok failed expired missing broken]:
  assumes "\<And>s f w. P [] s f w (Inr (RCounts s f), w)"
    and "\<And>d ds s f w. \<lbrakk>d \<in> locks (fs w); unlink_fails e d (fs w)\<rbrakk> \<Longrightarrow>
      P (d # ds) s f w (Inl OSError, \<lparr>fs = fs w, out = out w @ preamble d (fs w)\<rparr>)"
    and "\<And>d ds s f w err f' w1. \<lbrakk>\<not> (d \<in> locks (fs w) \<and> unlink_fails e d (fs w));
      pixi e (install_call d) (ready_fs d (fs w)) = Completed 0 err f';
      w1 = \<lparr>fs = f', out = out w @ attempt d (fs w) @ [Print LockGenerated]\<rparr>;
      P ds (s + 1) f w1 (lock_loop e ds (s + 1) f w1)\<rbrakk> \<Longrightarrow>
      P (d # ds) s f w (lock_loop e ds (s + 1) f w1)"
    and "\<And>d ds s f w rc err f' w1. \<lbrakk>\<not> (d \<in> locks (fs w) \<and> unlink_fails e d (fs w));
      pixi e (install_call d) (ready_fs d (fs w)) = Completed rc err f'; rc \<noteq> 0;
      w1 = \<lparr>fs = f', out = out w @ attempt d (fs w) @ [Print GenFailed, Print (ErrorText err)]\<rparr>;
      P ds s (f + 1) w1 (lock_loop e ds s (f + 1) w1)\<rbrakk> \<Longrightarrow>
      P (d # ds) s f w (lock_loop e ds s (f + 1) w1)"
    and "\<And>d ds s f w f' w1. \<lbrakk>\<not> (d \<in> locks (fs w) \<and> unlink_fails e d (fs w));
      pixi e (install_call d) (ready_fs d (fs w)) = Expired f';
      w1 = \<lparr>fs = f', out = out w @ attempt d (fs w) @ [Print TimeoutNotice]\<rparr>;
      P ds s (f + 1) w1 (lock_loop e ds s (f + 1) w1)\<rbrakk> \<Longrightarrow>
      P (d # ds) s f w (lock_loop e ds s (f + 1) w1)"
    and "\<And>d ds s f w. \<lbrakk>\<not> (d \<in> locks (fs w) \<and> unlink_fails e d (fs w));
      pixi e (install_call d) (ready_fs d (fs w)) = NoExecutable\<rbrakk> \<Longrightarrow>
      P (d # ds) s f w
        (Inr RFalse,
         \<lparr>fs = ready_fs d (fs w),
          out = out w @ attempt d (fs w) @ [Print PixiNotFound, Print VisitPixi]\<rparr>)"
    and "\<And>d ds s f w. \<lbrakk>\<not> (d \<in> locks (fs w) \<and> unlink_fails e d (fs w));
      pixi e (install_call d) (ready_fs d (fs w)) = SpawnFailed\<rbrakk> \<Longrightarrow>
      P (d # ds) s f w
        (Inl OSError, \<lparr>fs = ready_fs d (fs w), out = out w @ attempt d (fs w)\<rparr>)"
  shows "P ds s f w (lock_loop e ds s f w)"
proof (induction ds arbitrary: s f w)
  case Nil
  show ?case by (simp add: assms(1))
next
  case (Cons d ds)
  show ?case
  proof (cases rule: lock_loop_cases [of d w e ds s f])
    case stuck
    then show ?thesis
      using assms(2) [OF stuck(1,2)] by (simp only:)
  next
    case (ok err f')
    then show ?thesis
      using assms(3) [OF ok(1,2) refl Cons.IH] by (simp only:)
  next
    case (failed rc err f')
    then show ?thesis
      using assms(4) [OF failed(1,2,3) refl Cons.IH] by (simp only:)
  next
    case (expired f')
    then show ?thesis
      using assms(5) [OF expired(1,2) refl Cons.IH] by (simp only:)
  next
    case missing
    then show ?thesis
      using assms(6) [OF missing(1,2)] by (simp only:)
  next
    case broken
    then show ?thesis
      using assms(7) [OF broken(1,2)] by (simp only:)
  qed
qed

section \<open>Properties of every invocation and of every deletion\<close>

lemma all_on_run: "list_all (on_run P) evs \<longleftrightarrow> (\<forall>c g. Run c g \<in> set evs \<longrightarrow> P c g)"
proof (induction evs)
  case Nil
  then show ?case by simp
next
  case (Cons ev evs)
  then show ?case by (cases ev) auto
qed

lemma all_on_unlink:
  "list_all (on_unlink P) evs \<longleftrightarrow> (\<forall>d g. Unlink d g \<in> set evs \<longrightarrow> P d g)"
proof (induction evs)
  case Nil
  then show ?case by simp
next
  case (Cons ev evs)
  then show ?case by (cases ev) auto
qed

section \<open>The first script as a whole\<close>

lemma main_a_none:
  "discovered g = [] \<Longrightarrow>
   main_a e (fresh g) =
     (Exit 1,
      \<lparr>fs = g,
       out = [Print Searching] @ (if root_exists g then [] else [Print FixturesDirNotFound]) @
             [Print NothingToProcess]\<rparr>)"
  by (auto simp: main_a_def find_pyproject_files_def emit_def fresh_def discovered_def
      split: if_splits)

lemma main_a_some:
  "discovered g \<noteq> [] \<Longrightarrow>
   main_a e (fresh g) =
     (case lock_loop e (glob_manifests g) 0 0 (begun g) of
        (Inl x, w2) \<Rightarrow> (Uncaught x, w2)
      | (Inr RFalse, w2) \<Rightarrow> (Exit 1, emit (Print Aborted) w2)
      | (Inr (RCounts s f), w2) \<Rightarrow> report e (glob_manifests g) s f w2)"
  by (auto simp: main_a_def find_pyproject_files_def generate_lock_files_def emit_def fresh_def
      discovered_def begun_def split: if_splits)

section \<open>What every event of a run satisfies\<close>

lemma lock_loop_all:
  assumes "\<And>m. Q (Print m)"
    and "\<And>d g. d \<in> locks g \<Longrightarrow> Q (Unlink d g)"
    and "\<And>d g. Q (Run (install_call d) (ready_fs d g))"
  shows "list_all Q (out w) \<longrightarrow> list_all Q (out (snd (lock_loop e ds s f w)))"
  by (induction ds s f w rule: lock_loop_induct [where e = e])
    (auto simp: attempt_def preamble_def assms)

lemma clean_body_eq:
  "clean_body e d c f w =
     (if d \<in> caches (fs w) then
        if rmtree_fails e d (fs w)
        then ((c, f + 1), \<lparr>fs = fs w, out = out w @ [Rmtree d (fs w), Print (DeleteFailed d)]\<rparr>)
        else ((c + 1, f),
              \<lparr>fs = (fs w)\<lparr>caches := caches (fs w) - {d}\<rparr>,
               out = out w @ [Rmtree d (fs w), Print (DeletedCache d)]\<rparr>)
      else ((c, f), \<lparr>fs = fs w, out = out w @ [Print (NoCache d)]\<rparr>))"
  by (cases w) (simp add: clean_body_def rmtree_def emit_def Let_def)

lemma clean_loop_all:
  assumes "\<And>m. Q (Print m)" and "\<And>d g. Q (Rmtree d g)"
  shows "list_all Q (out w) \<Longrightarrow> list_all Q (out (snd (clean_loop e ds c f w)))"
  by (induction ds arbitrary: c f w) (simp_all add: clean_body_eq assms)

lemma cleanup_all:
  assumes "\<And>m. Q (Print m)" and "\<And>d g. Q (Rmtree d g)"
  shows "list_all Q (out w) \<Longrightarrow> list_all Q (out (snd (cleanup_pixi_environments e ds w)))"
  using clean_loop_all [of Q "emit (Print CleaningUp) w" e ds 0 0, OF assms]
  by (auto simp: cleanup_pixi_environments_def emit_def assms split: prod.splits)

lemma report_all:
  assumes "\<And>m. Q (Print m)" and "\<And>d g. Q (Rmtree d g)"
  shows "list_all Q (out w) \<Longrightarrow> list_all Q (out (snd (report e ds s f w)))"
  using cleanup_all [of Q w e ds, OF assms]
  by (simp add: report_def summary_def emit_def assms Let_def)

lemma main_a_all:
  assumes "\<And>m. Q (Print m)" and "\<And>d g. Q (Rmtree d g)"
    and "\<And>d g. d \<in> locks g \<Longrightarrow> Q (Unlink d g)"
    and "\<And>d g. Q (Run (install_call d) (ready_fs d g))"
  shows "list_all Q (out (snd (main_a e (fresh g))))"
proof (cases "discovered g = []")
  case True
  then show ?thesis by (simp add: main_a_none assms)
next
  case False
  obtain r w2 where loop: "lock_loop e (glob_manifests g) 0 0 (begun g) = (r, w2)"
    by (cases "lock_loop e (glob_manifests g) 0 0 (begun g)")
  have "list_all Q (out (begun g))" by (simp add: begun_def assms)
  with lock_loop_all [of Q "begun g" e "glob_manifests g" 0 0, OF assms(1,3,4)] loop
  have w2: "list_all Q (out w2)" by simp
  show ?thesis
  proof (cases r)
    case (Inl x)
    with False loop w2 show ?thesis by (simp add: main_a_some)
  next
    case (Inr res)
    show ?thesis
    proof (cases res)
      case RFalse
      with Inr False loop w2 show ?thesis by (simp add: main_a_some emit_def assms)
    next
      case (RCounts s f)
      with Inr False loop report_all [of Q w2 e "glob_manifests g" s f, OF assms(1,2) w2]
      show ?thesis by (simp add: main_a_some)
    qed
  qed
qed

section \<open>The second script\<close>

lemma dirs_loop_step:
  "dirs_loop e (d # ds) w =
     (if d \<notin> dirs (fs w) then dirs_loop e ds \<lparr>fs = fs w, out = out w @ [Print (DirNotFound d)]\<rparr>
      else
        (let evs = out w @ [Print (GeneratingFor d), Run (install_call_b d) (fs w)] in
         case pixi e (install_call_b d) (fs w) of
           Completed rc err g' \<Rightarrow>
             if rc = 0 then dirs_loop e ds \<lparr>fs = g', out = evs @ [Print (GeneratedIn d)]\<rparr>
             else (Some (Exit 1), \<lparr>fs = g', out = evs @ [Print (FailedIn d), Print (ErrorB err)]\<rparr>)
         | Expired g' \<Rightarrow> (Some (Uncaught TimeoutExpired), \<lparr>fs = g', out = evs\<rparr>)
         | NoExecutable \<Rightarrow>
             (Some (Exit 1), \<lparr>fs = fs w, out = evs @ [Print PixiNotFoundB, Print InstallCurl]\<rparr>)
         | SpawnFailed \<Rightarrow> (Some (Uncaught OSError), \<lparr>fs = fs w, out = evs\<rparr>)))"
  by (cases w)
    (simp add: subprocess_run_def emit_def install_call_b_def Let_def split: spawn.splits)

lemma dirs_loop_all:
  assumes "\<And>m. Q (Print m)" and "\<And>d g. d \<in> dirs g \<Longrightarrow> Q (Run (install_call_b d) g)"
  shows "list_all Q (out w) \<Longrightarrow> list_all Q (out (snd (dirs_loop e ds w)))"
proof (induction ds arbitrary: w)
  case Nil
  then show ?case by simp
next
  case (Cons d ds)
  then show ?case
    by (simp add: dirs_loop_step assms Let_def del: dirs_loop.simps split: spawn.splits)
qed

lemma main_b_all:
  assumes "\<And>m. Q (Print m)" and "\<And>d g. d \<in> dirs g \<Longrightarrow> Q (Run (install_call_b d) g)"
  shows "list_all Q (out (snd (main_b e (fresh g))))"
  using dirs_loop_all [of Q "fresh g" e PIXI_DIRS, OF assms]
  by (auto simp: main_b_def fresh_def emit_def assms split: prod.splits option.splits)

lemma unlinks_none: "unlinks evs = [] \<longleftrightarrow> list_all (on_unlink (\<lambda>d g. False)) evs"
proof (induction evs)
  case Nil
  then show ?case by simp
next
  case (Cons ev evs)
  then show ?case by (cases ev) auto
qed

lemma lock_body_present:
  assumes "d \<in> locks (fs w)"
  shows "out (snd (lock_body e d s f w)) =
           out w @ [Print (Processing d), Print (Location d), Print LockExists, Unlink d (fs w)] @
           (if unlink_fails e d (fs w) then []
            else [Print GeneratingLock, Run (install_call d) (ready_fs d (fs w))] @
                 drop (length (out w) + 6) (out (snd (lock_body e d s f w))))"
proof (cases "unlink_fails e d (fs w)")
  case True
  with assms show ?thesis by (simp add: lock_body_raise preamble_def)
next
  case False
  then have "lock_body e d s f w =
      invoke_tool e d s f \<lparr>fs = ready_fs d (fs w), out = out w @ preamble d (fs w)\<rparr>"
    by (simp add: lock_body_invoke)
  with False assms show ?thesis
    by (simp add: invoke_tool_eq preamble_def Let_def split: spawn.splits)
qed

text \<open>The definitions a concrete run unfolds.\<close>

lemmas run_defs = main_a_def main_b_def find_pyproject_files_def generate_lock_files_def
  lock_body_def invoke_tool_def subprocess_run_def unlink_def rmtree_def emit_def fresh_def
  install_call_def install_call_b_def cleanup_pixi_environments_def clean_body_def summary_def
  report_def PIXI_DIRS_def Let_def

section \<open>When the executable is missing, when a deletion raises\<close>

lemma lock_loop_missing:
  "list_all (on_run (found e)) (out w) \<longrightarrow>
   (case lock_loop e ds s f w of (r, w') \<Rightarrow>
    if r = Inr RFalse
    then \<exists>pre c g. out w' = pre @ [Run c g, Print PixiNotFound, Print VisitPixi] \<and>
           pixi e c g = NoExecutable \<and> list_all (on_run (found e)) pre \<and> fs w' = g
    else list_all (on_run (found e)) (out w'))"
proof (induction ds s f w rule: lock_loop_induct [where e = e])
  case (missing d ds s f w)
  show ?case
    apply (simp add: attempt_def)
    apply (intro impI exI [of _ "out w @ preamble d (fs w) @ [Print GeneratingLock]"])
    apply (simp add: preamble_def missing)
    done
qed (auto simp: attempt_def preamble_def found_def)

lemma lock_loop_stuck:
  "list_all (on_unlink (deletable e)) (out w) \<longrightarrow>
   (case lock_loop e ds s f w of (r, w') \<Rightarrow>
    (r = Inl OSError \<and>
     (\<exists>pre d. out w' =
        pre @ [Print (Processing d), Print (Location d), Print LockExists, Unlink d (fs w')] \<and>
        unlink_fails e d (fs w') \<and> list_all (on_unlink (deletable e)) pre)) \<or>
    list_all (on_unlink (deletable e)) (out w'))"
proof (induction ds s f w rule: lock_loop_induct [where e = e])
  case (stuck d ds s f w)
  then show ?case
    by (auto simp: preamble_def intro!: exI [of _ "out w"])
qed (auto simp: attempt_def preamble_def deletable_def)

lemma lock_loop_no_summary:
  "filter is_summary (out (snd (lock_loop e ds s f w))) = filter is_summary (out w)"
  by (induction ds s f w rule: lock_loop_induct [where e = e])
    (auto simp: attempt_def preamble_def is_summary_def)

lemma main_a_missing:
  "list_all (on_run (found e)) (out (snd (main_a e (fresh g)))) \<or>
   (fst (main_a e (fresh g)) = Exit 1 \<and>
    (\<exists>pre c h. out (snd (main_a e (fresh g))) =
        pre @ [Run c h, Print PixiNotFound, Print VisitPixi, Print Aborted] \<and>
      pixi e c h = NoExecutable \<and> list_all (on_run (found e)) pre \<and>
      fs (snd (main_a e (fresh g))) = h))"
proof (cases "discovered g = []")
  case True
  then show ?thesis by (simp add: main_a_none)
next
  case False
  obtain r w2 where loop: "lock_loop e (glob_manifests g) 0 0 (begun g) = (r, w2)"
    by (cases "lock_loop e (glob_manifests g) 0 0 (begun g)")
  have start: "list_all (on_run (found e)) (out (begun g))" by (simp add: begun_def)
  note step = lock_loop_missing [of e "begun g" "glob_manifests g" 0 0, unfolded loop, rule_format, OF start]
  show ?thesis
  proof (cases r)
    case (Inl x)
    with False loop step show ?thesis by (simp add: main_a_some)
  next
    case (Inr res)
    show ?thesis
    proof (cases res)
      case RFalse
      with Inr step obtain pre c h where
        "out w2 = pre @ [Run c h, Print PixiNotFound, Print VisitPixi]"
        "pixi e c h = NoExecutable" "list_all (on_run (found e)) pre" "fs w2 = h"
        by auto
      with RFalse Inr False loop show ?thesis
        by (simp add: main_a_some emit_def)
    next
      case (RCounts s f)
      with Inr step have "list_all (on_run (found e)) (out w2)" by simp
      then have "list_all (on_run (found e)) (out (snd (report e (glob_manifests g) s f w2)))"
        by (rule report_all [rotated 2]) simp_all
      with RCounts Inr False loop show ?thesis by (simp add: main_a_some)
    qed
  qed
qed

lemma main_a_stuck:
  "list_all (on_unlink (deletable e)) (out (snd (main_a e (fresh g)))) \<or>
   (fst (main_a e (fresh g)) = Uncaught OSError \<and>
    filter is_summary (out (snd (main_a e (fresh g)))) = [] \<and>
    (\<exists>pre d. out (snd (main_a e (fresh g))) =
        pre @ [Print (Processing d), Print (Location d), Print LockExists,
               Unlink d (fs (snd (main_a e (fresh g))))] \<and>
      unlink_fails e d (fs (snd (main_a e (fresh g)))) \<and>
      list_all (on_unlink (deletable e)) pre))"
proof (cases "discovered g = []")
  case True
  then show ?thesis by (simp add: main_a_none)
next
  case False
  obtain r w2 where loop: "lock_loop e (glob_manifests g) 0 0 (begun g) = (r, w2)"
    by (cases "lock_loop e (glob_manifests g) 0 0 (begun g)")
  have start: "list_all (on_unlink (deletable e)) (out (begun g))" by (simp add: begun_def)
  note step = lock_loop_stuck [of e "begun g" "glob_manifests g" 0 0, unfolded loop, rule_format, OF start]
  have quiet: "filter is_summary (out w2) = []"
    using lock_loop_no_summary [of e "glob_manifests g" 0 0 "begun g"] loop
    by (simp add: begun_def is_summary_def)
  from step [simplified] show ?thesis
  proof
    assume "r = Inl OSError \<and>
      (\<exists>pre d. out w2 =
         pre @ [Print (Processing d), Print (Location d), Print LockExists, Unlink d (fs w2)] \<and>
         unlink_fails e d (fs w2) \<and> list_all (on_unlink (deletable e)) pre)"
    with False loop quiet show ?thesis by (simp add: main_a_some)
  next
    assume ok: "list_all (on_unlink (deletable e)) (out w2)"
    show ?thesis
    proof (cases r)
      case (Inl x)
      with False loop ok show ?thesis by (simp add: main_a_some)
    next
      case (Inr res)
      show ?thesis
      proof (cases res)
        case RFalse
        with Inr False loop ok show ?thesis by (simp add: main_a_some emit_def)
      next
        case (RCounts s f)
        from ok have "list_all (on_unlink (deletable e)) (out (snd (report e (glob_manifests g) s f w2)))"
          by (rule report_all [rotated 2]) simp_all
        with RCounts Inr False loop show ?thesis by (simp add: main_a_some)
      qed
    qed
  qed
qed

lemma dirs_loop_missing:
  "list_all (on_run (found e)) (out w) \<Longrightarrow>
   (case dirs_loop e ds w of (r, w') \<Rightarrow>
     (r = Some (Exit 1) \<and>
      (\<exists>pre c g. out w' = pre @ [Run c g, Print PixiNotFoundB, Print InstallCurl] \<and>
         pixi e c g = NoExecutable \<and> list_all (on_run (found e)) pre \<and> fs w' = g)) \<or>
     list_all (on_run (found e)) (out w'))"
proof (induction ds arbitrary: w)
  case Nil
  then show ?case by simp
next
  case (Cons d ds)
  show ?case
  proof (cases "d \<in> dirs (fs w) \<and> pixi e (install_call_b d) (fs w) = NoExecutable")
    case True
    with Cons.prems show ?thesis
      by (auto simp: dirs_loop_step Let_def simp del: dirs_loop.simps
          intro!: exI [of _ "out w @ [Print (GeneratingFor d)]"])
  next
    case False
    show ?thesis
    proof (cases "d \<in> dirs (fs w)")
      case absent: False
      with Cons.prems Cons.IH [of "\<lparr>fs = fs w, out = out w @ [Print (DirNotFound d)]\<rparr>"]
      show ?thesis by (simp add: dirs_loop_step del: dirs_loop.simps)
    next
      case True
      with False have nm: "pixi e (install_call_b d) (fs w) \<noteq> NoExecutable" by simp
      show ?thesis
      proof (cases "pixi e (install_call_b d) (fs w)")
        case (Completed rc err g')
        with True Cons.prems
          Cons.IH [of "\<lparr>fs = g', out = out w @ [Print (GeneratingFor d),
            Run (install_call_b d) (fs w), Print (GeneratedIn d)]\<rparr>"]
        show ?thesis
          by (simp add: dirs_loop_step Let_def found_def del: dirs_loop.simps)
      next
        case (Expired g')
        with True Cons.prems show ?thesis
          by (simp add: dirs_loop_step Let_def found_def del: dirs_loop.simps)
      next
        case NoExecutable
        with nm show ?thesis by simp
      next
        case SpawnFailed
        with True Cons.prems show ?thesis
          by (simp add: dirs_loop_step Let_def found_def del: dirs_loop.simps)
      qed
    qed
  qed
qed

lemma main_b_missing:
  "list_all (on_run (found e)) (out (snd (main_b e (fresh g)))) \<or>
   (fst (main_b e (fresh g)) = Exit 1 \<and>
    (\<exists>pre c h. out (snd (main_b e (fresh g))) =
        pre @ [Run c h, Print PixiNotFoundB, Print InstallCurl] \<and>
      pixi e c h = NoExecutable \<and> list_all (on_run (found e)) pre \<and>
      fs (snd (main_b e (fresh g))) = h))"
proof -
  have "list_all (on_run (found e)) (out (fresh g))" by (simp add: fresh_def)
  from dirs_loop_missing [OF this, of PIXI_DIRS] show ?thesis
    by (auto simp: main_b_def emit_def split: prod.splits option.splits)
qed

lemma only_run_missing:
  assumes "Run c h \<in> set (pre @ Run c' h' # rest)" and "pixi e c h = NoExecutable"
    and "list_all (on_run (found e)) pre" and "list_all (on_run (found e)) rest"
  shows "c = c' \<and> h = h'"
  using assms by (auto simp: all_on_run found_def)

lemma only_unlink_stuck:
  assumes "Unlink d h \<in> set (pre @ [Print m1, Print m2, Print m3, Unlink d' h'])"
    and "unlink_fails e d h" and "list_all (on_unlink (deletable e)) pre"
  shows "d = d' \<and> h = h'"
  using assms by (auto simp: all_on_unlink deletable_def)

lemma outcomes_append:
  "outcomes cur (xs @ ys) = outcomes cur xs @ outcomes (current cur xs) ys"
  by (induction xs arbitrary: cur) (auto split: option.splits)

lemma outcomes_attempt [simp]:
  "outcomes cur (attempt d g @ rest) = outcomes (Some d) rest"
  by (simp add: attempt_def preamble_def started_def verdict_def)

lemma current_attempt [simp]: "current cur (attempt d g @ rest) = current (Some d) rest"
  by (simp add: attempt_def preamble_def started_def)

section \<open>The tool is missing at the first fixture\<close>

lemma dirs_loop_skipping:
  "filter (\<lambda>x. x \<in> dirs (fs w)) ds = d # rest \<Longrightarrow>
   dirs_loop e ds w =
     dirs_loop e (d # tl (dropWhile (\<lambda>x. x \<notin> dirs (fs w)) ds))
       \<lparr>fs = fs w,
        out = out w @ map (\<lambda>x. Print (DirNotFound x)) (takeWhile (\<lambda>x. x \<notin> dirs (fs w)) ds)\<rparr>"
proof (induction ds arbitrary: w)
  case Nil
  then show ?case by simp
next
  case (Cons x xs)
  show ?case
  proof (cases "x \<in> dirs (fs w)")
    case True
    with Cons.prems have "x = d" by simp
    with True show ?thesis by (cases w) simp
  next
    case False
    with Cons.prems have "filter (\<lambda>x. x \<in> dirs (fs w)) xs = d # rest" by simp
    with Cons.IH [of "\<lparr>fs = fs w, out = out w @ [Print (DirNotFound x)]\<rparr>"] False
    show ?thesis
      by (simp add: dirs_loop_step del: dirs_loop.simps)
  qed
qed

lemma dirs_loop_absent:
  "d \<in> dirs (fs w) \<Longrightarrow> pixi e (install_call_b d) (fs w) = NoExecutable \<Longrightarrow>
   dirs_loop e (d # ds) w =
     (Some (Exit 1),
      \<lparr>fs = fs w,
       out = out w @ [Print (GeneratingFor d), Run (install_call_b d) (fs w),
                      Print PixiNotFoundB, Print InstallCurl]\<rparr>)"
  by (simp add: dirs_loop_step Let_def del: dirs_loop.simps)

lemma main_b_absent:
  assumes "filter (\<lambda>x. x \<in> dirs g) PIXI_DIRS = d # rest"
    and "pixi e (install_call_b d) g = NoExecutable"
  shows "main_b e (fresh g) =
     (Exit 1,
      \<lparr>fs = g,
       out = map (\<lambda>x. Print (DirNotFound x)) (takeWhile (\<lambda>x. x \<notin> dirs g) PIXI_DIRS) @
             [Print (GeneratingFor d), Run (install_call_b d) g,
              Print PixiNotFoundB, Print InstallCurl]\<rparr>)"
proof -
  have "d \<in> set (filter (\<lambda>x. x \<in> dirs g) PIXI_DIRS)"
    using assms(1) by simp
  then have d: "d \<in> dirs g" by simp
  have "dirs_loop e PIXI_DIRS (fresh g) =
      dirs_loop e (d # tl (dropWhile (\<lambda>x. x \<notin> dirs g) PIXI_DIRS))
        \<lparr>fs = g,
         out = map (\<lambda>x. Print (DirNotFound x)) (takeWhile (\<lambda>x. x \<notin> dirs g) PIXI_DIRS)\<rparr>"
    using dirs_loop_skipping [of "fresh g" PIXI_DIRS d rest e] assms(1)
    by (simp add: fresh_def)
  also have "\<dots> =
     (Some (Exit 1),
      \<lparr>fs = g,
       out = map (\<lambda>x. Print (DirNotFound x)) (takeWhile (\<lambda>x. x \<notin> dirs g) PIXI_DIRS) @
             [Print (GeneratingFor d), Run (install_call_b d) g,
              Print PixiNotFoundB, Print InstallCurl]\<rparr>)"
    using d assms(2) by (subst dirs_loop_absent) simp_all
  finally show ?thesis
    by (simp add: main_b_def)
qed

lemma lock_loop_absent:
  "\<not> (d \<in> locks (fs w) \<and> unlink_fails e d (fs w)) \<Longrightarrow>
   pixi e (install_call d) (ready_fs d (fs w)) = NoExecutable \<Longrightarrow>
   lock_loop e (d # ds) s f w =
     (Inr RFalse,
      \<lparr>fs = ready_fs d (fs w),
       out = out w @ attempt d (fs w) @ [Print PixiNotFound, Print VisitPixi]\<rparr>)"
  by (cases rule: lock_loop_cases [of d w e ds s f]) auto

lemma main_a_absent:
  assumes "root_exists g" and "glob_manifests g = d # ds"
    and "\<not> (d \<in> locks g \<and> unlink_fails e d g)"
    and "pixi e (install_call d) (ready_fs d g) = NoExecutable"
  shows "main_a e (fresh g) =
     (Exit 1,
      \<lparr>fs = ready_fs d g,
       out = [Print Searching, Print (FoundFiles (length (d # ds)))] @ attempt d g @
             [Print PixiNotFound, Print VisitPixi, Print Aborted]\<rparr>)"
  using assms lock_loop_absent [of d "begun g" e ds 0 0]
  by (simp add: main_a_some discovered_def begun_def emit_def)

section \<open>The outcomes a run of the first script records\<close>

lemma outcomes_preamble [simp]:
  "outcomes cur (preamble d g @ rest) = outcomes (Some d) rest"
  by (simp add: preamble_def started_def verdict_def)

lemma outcomes_after_attempt:
  "outcomes cur (xs @ attempt d g @ rest) = outcomes cur xs @ outcomes (Some d) rest"
  by (subst outcomes_append) simp

lemma outcomes_after_preamble:
  "outcomes cur (xs @ preamble d g) = outcomes cur xs"
  using outcomes_preamble [of "current cur xs" d g "[]"]
  by (subst outcomes_append) simp

lemma outcomes_after_attempt_only:
  "outcomes cur (xs @ attempt d g) = outcomes cur xs"
  using outcomes_after_attempt [of cur xs d g "[]"] by simp

lemma classify_prefix:
  "map fst (classify e ds g) = take (length (classify e ds g)) ds"
  by (induction ds arbitrary: g) (auto split: spawn.splits)

lemma classify_length: "length (classify e ds g) \<le> length ds"
  by (induction ds arbitrary: g) (auto split: spawn.splits)

lemma lock_loop_outcomes:
  "outcomes cur (out (snd (lock_loop e ds s f w))) = outcomes cur (out w) @ classify e ds (fs w)"
  by (induction ds s f w rule: lock_loop_induct [where e = e])
    (auto simp: outcomes_after_attempt outcomes_after_attempt_only outcomes_after_preamble
      started_def verdict_def)

lemma lock_loop_result:
  "(case fst (lock_loop e ds s f w) of
      Inr (RCounts s' f') \<Rightarrow>
        length (classify e ds (fs w)) = length ds \<and>
        s' = s + length (filter (\<lambda>p. snd p = Success) (classify e ds (fs w))) \<and>
        f' = f + length (filter (\<lambda>p. snd p \<noteq> Success) (classify e ds (fs w)))
    | _ \<Rightarrow> length (classify e ds (fs w)) < length ds)"
  by (induction ds s f w rule: lock_loop_induct [where e = e])
    (auto split: sum.splits gen_result.splits)

lemma outcomes_quiet:
  "list_all (\<lambda>ev. verdict ev = None) evs \<Longrightarrow> outcomes cur evs = []"
  by (induction evs arbitrary: cur) (auto split: option.splits)

lemma outcomes_quiet_tail:
  "list_all (\<lambda>ev. verdict ev = None) ys \<Longrightarrow> outcomes cur (xs @ ys) = outcomes cur xs"
  by (simp add: outcomes_append outcomes_quiet)

lemma clean_loop_tail:
  "\<exists>tail. out (snd (clean_loop e ds c f w)) = out w @ tail \<and>
     list_all (\<lambda>ev. verdict ev = None \<and> ev \<noteq> Print CleaningUp) tail"
proof (induction ds arbitrary: c f w)
  case Nil
  show ?case by simp
next
  case (Cons d ds)
  obtain c' f' w' where body: "clean_body e d c f w = ((c', f'), w')"
    by (cases "clean_body e d c f w") auto
  then obtain step where step: "out w' = out w @ step"
    "list_all (\<lambda>ev. verdict ev = None \<and> ev \<noteq> Print CleaningUp) step"
    by (auto simp: clean_body_eq verdict_def split: if_splits)
  from Cons.IH [of c' f' w'] obtain tail where
    "out (snd (clean_loop e ds c' f' w')) = out w' @ tail"
    "list_all (\<lambda>ev. verdict ev = None \<and> ev \<noteq> Print CleaningUp) tail"
    by blast
  with body step show ?case
    by (intro exI [of _ "step @ tail"]) simp
qed

lemma report_tail:
  "\<exists>tail. out (snd (report e ds s f w)) = out w @ tail \<and>
     list_all (\<lambda>ev. verdict ev = None) tail \<and>
     (Print CleaningUp \<in> set tail \<longleftrightarrow> 0 < s)"
proof (cases "0 < s")
  case True
  obtain tail where tail:
    "out (snd (clean_loop e ds 0 0 (emit (Print CleaningUp) w))) =
       out (emit (Print CleaningUp) w) @ tail"
    "list_all (\<lambda>ev. verdict ev = None \<and> ev \<noteq> Print CleaningUp) tail"
    using clean_loop_tail [of e ds 0 0 "emit (Print CleaningUp) w"] by blast
  then have "list_all (\<lambda>ev. verdict ev = None) tail"
    by (simp add: list_all_iff)
  with True tail show ?thesis
    by (auto simp: report_def cleanup_pixi_environments_def summary_def emit_def Let_def
        verdict_def split: prod.splits)
next
  case False
  then show ?thesis
    by (auto simp: report_def summary_def emit_def Let_def verdict_def)
qed

lemma lock_loop_no_cleaning:
  "Print CleaningUp \<in> set (out (snd (lock_loop e ds s f w))) \<longleftrightarrow>
   Print CleaningUp \<in> set (out w)"
  by (induction ds s f w rule: lock_loop_induct [where e = e])
    (auto simp: attempt_def preamble_def)

lemma main_a_outcomes:
  "outcomes None (out (snd (main_a e (fresh g)))) = classify e (discovered g) g"
proof (cases "discovered g = []")
  case True
  then show ?thesis
    by (simp add: main_a_none started_def verdict_def)
next
  case False
  then have ds: "discovered g = glob_manifests g"
    by (simp add: discovered_def split: if_splits)
  obtain r w2 where loop: "lock_loop e (glob_manifests g) 0 0 (begun g) = (r, w2)"
    by (cases "lock_loop e (glob_manifests g) 0 0 (begun g)")
  have w2: "outcomes None (out w2) = classify e (glob_manifests g) g"
    using lock_loop_outcomes [of None e "glob_manifests g" 0 0 "begun g"] loop
    by (simp add: begun_def started_def verdict_def)
  show ?thesis
  proof (cases r)
    case (Inl x)
    with False loop w2 ds show ?thesis by (simp add: main_a_some)
  next
    case (Inr res)
    show ?thesis
    proof (cases res)
      case RFalse
      have "outcomes None (out w2 @ [Print Aborted]) = outcomes None (out w2)"
        by (rule outcomes_quiet_tail) (simp add: verdict_def)
      with RFalse Inr False loop w2 ds show ?thesis
        by (simp add: main_a_some emit_def)
    next
      case (RCounts s f)
      obtain tail where "out (snd (report e (glob_manifests g) s f w2)) = out w2 @ tail"
        "list_all (\<lambda>ev. verdict ev = None) tail"
        using report_tail [of e "glob_manifests g" s f w2] by blast
      then have "outcomes None (out (snd (report e (glob_manifests g) s f w2))) =
          outcomes None (out w2)"
        by (simp add: outcomes_quiet_tail)
      with RCounts Inr False loop w2 ds show ?thesis
        by (simp add: main_a_some)
    qed
  qed
qed

lemma all_success:
  "\<forall>p \<in> set xs. snd p = Success \<Longrightarrow> xs = map (\<lambda>d. (d, Success)) (map fst xs)"
  by (induction xs) auto

text \<open>How the first script ends, from what its loop recorded.\<close>

lemma main_a_end:
  "fst (main_a e (fresh g)) = Exit 0 \<longleftrightarrow>
   discovered g \<noteq> [] \<and> classify e (discovered g) g = map (\<lambda>d. (d, Success)) (discovered g)"
proof (cases "discovered g = []")
  case True
  then show ?thesis by (simp add: main_a_none)
next
  case False
  then have ds: "discovered g = glob_manifests g"
    by (simp add: discovered_def split: if_splits)
  let ?cl = "classify e (glob_manifests g) g"
  obtain r w2 where loop: "lock_loop e (glob_manifests g) 0 0 (begun g) = (r, w2)"
    by (cases "lock_loop e (glob_manifests g) 0 0 (begun g)")
  note res = lock_loop_result [where e = e and ds = "glob_manifests g" and s = 0 and f = 0
      and w = "begun g", unfolded loop]
  have all_ok: "?cl = map (\<lambda>d. (d, Success)) (glob_manifests g) \<longleftrightarrow>
      length ?cl = length (glob_manifests g) \<and> filter (\<lambda>p. snd p \<noteq> Success) ?cl = []"
    (is "?lhs \<longleftrightarrow> ?rhs")
  proof
    assume ?lhs
    then have "length ?cl = length (glob_manifests g)"
      by (metis length_map)
    moreover have "filter (\<lambda>p. snd p \<noteq> Success) (map (\<lambda>d. (d, Success)) (glob_manifests g)) = []"
      by (simp add: filter_empty_conv)
    ultimately show ?rhs using \<open>?lhs\<close> by simp
  next
    assume r: ?rhs
    then have fsts: "map fst ?cl = glob_manifests g"
      using classify_prefix [of e "glob_manifests g" g] by simp
    from r have "\<forall>p \<in> set ?cl. snd p = Success"
      by (simp add: filter_empty_conv)
    then have "?cl = map (\<lambda>d. (d, Success)) (map fst ?cl)"
      by (rule all_success)
    with fsts show ?lhs by simp
  qed
  show ?thesis
  proof (cases r)
    case (Inl x)
    with False loop res ds all_ok show ?thesis
      by (simp add: main_a_some begun_def)
  next
    case (Inr res')
    show ?thesis
    proof (cases res')
      case RFalse
      with Inr False loop res ds all_ok show ?thesis
        by (simp add: main_a_some begun_def)
    next
      case (RCounts s f)
      with Inr False loop res ds all_ok show ?thesis
        by (auto simp: main_a_some begun_def report_def Let_def)
    qed
  qed
qed

lemma main_a_status: "exit_status (fst (main_a e (fresh g))) \<le> 1"
proof (cases "discovered g = []")
  case True
  then show ?thesis by (simp add: main_a_none)
next
  case False
  then show ?thesis
    by (auto simp: main_a_some report_def Let_def split: prod.splits sum.splits gen_result.splits)
qed

section \<open>The invocations and the outcomes of the second script\<close>

lemma runs_append: "runs (xs @ ys) = runs xs @ runs ys"
proof (induction xs)
  case Nil
  show ?case by simp
next
  case (Cons ev xs)
  then show ?case by (cases ev) simp_all
qed

lemma dirs_loop_ok:
  "list_all (tool_ok e) (runs (out w)) \<longrightarrow>
   (case dirs_loop e ds w of
      (None, w') \<Rightarrow> list_all (tool_ok e) (runs (out w'))
    | (Some p, w') \<Rightarrow> exit_status p = 1 \<and> \<not> list_all (tool_ok e) (runs (out w')))"
proof (induction ds arbitrary: w)
  case Nil
  show ?case by simp
next
  case (Cons d ds)
  show ?case
  proof (cases "d \<in> dirs (fs w)")
    case False
    with Cons [of "\<lparr>fs = fs w, out = out w @ [Print (DirNotFound d)]\<rparr>"] show ?thesis
      by (simp add: dirs_loop_step runs_append del: dirs_loop.simps)
  next
    case True
    show ?thesis
    proof (cases "pixi e (install_call_b d) (fs w)")
      case (Completed rc err g')
      show ?thesis
      proof (cases "rc = 0")
        case ok: True
        with True Completed
          Cons [of "\<lparr>fs = g', out = (out w @ [Print (GeneratingFor d),
            Run (install_call_b d) (fs w)]) @ [Print (GeneratedIn d)]\<rparr>"]
        show ?thesis
          by (simp add: dirs_loop_step runs_append tool_ok_def Let_def del: dirs_loop.simps)
      next
        case False
        with True Completed show ?thesis
          by (simp add: dirs_loop_step runs_append tool_ok_def Let_def del: dirs_loop.simps)
      qed
    next
      case (Expired g')
      with True show ?thesis
        by (simp add: dirs_loop_step runs_append tool_ok_def Let_def del: dirs_loop.simps)
    next
      case NoExecutable
      with True show ?thesis
        by (simp add: dirs_loop_step runs_append tool_ok_def Let_def del: dirs_loop.simps)
    next
      case SpawnFailed
      with True show ?thesis
        by (simp add: dirs_loop_step runs_append tool_ok_def Let_def del: dirs_loop.simps)
    qed
  qed
qed

lemma main_b_end:
  "exit_status (fst (main_b e (fresh g))) =
     (if list_all (tool_ok e) (runs (out (snd (main_b e (fresh g))))) then 0 else 1)"
proof -
  obtain r w' where loop: "dirs_loop e PIXI_DIRS (fresh g) = (r, w')"
    by (cases "dirs_loop e PIXI_DIRS (fresh g)")
  have "list_all (tool_ok e) (runs (out (fresh g)))" by (simp add: fresh_def)
  with dirs_loop_ok [of e "fresh g" PIXI_DIRS] loop show ?thesis
    by (cases r) (simp_all add: main_b_def emit_def runs_append)
qed

lemma dirs_loop_judged:
  "outcomes None (out w) = map (judge e) (filter (completed e) (runs (out w))) \<longrightarrow>
   outcomes None (out (snd (dirs_loop e ds w))) =
     map (judge e) (filter (completed e) (runs (out (snd (dirs_loop e ds w)))))"
proof (induction ds arbitrary: w)
  case Nil
  show ?case by simp
next
  case (Cons d ds)
  show ?case
  proof (cases "d \<in> dirs (fs w)")
    case False
    with Cons [of "\<lparr>fs = fs w, out = out w @ [Print (DirNotFound d)]\<rparr>"] show ?thesis
      by (simp add: dirs_loop_step runs_append outcomes_quiet_tail verdict_def
          del: dirs_loop.simps)
  next
    case True
    show ?thesis
    proof (cases "pixi e (install_call_b d) (fs w)")
      case (Completed rc err g')
      show ?thesis
      proof (cases "rc = 0")
        case ok: True
        with True Completed
          Cons [of "\<lparr>fs = g', out = (out w @ [Print (GeneratingFor d),
            Run (install_call_b d) (fs w)]) @ [Print (GeneratedIn d)]\<rparr>"]
        show ?thesis
          by (simp add: dirs_loop_step runs_append outcomes_append started_def verdict_def
              tool_ok_def completed_def judge_def install_call_b_def Let_def
              del: dirs_loop.simps)
      next
        case False
        with True Completed show ?thesis
          by (simp add: dirs_loop_step runs_append outcomes_append started_def verdict_def
              tool_ok_def completed_def judge_def install_call_b_def Let_def
              del: dirs_loop.simps)
      qed
    next
      case (Expired g')
      with True show ?thesis
        by (simp add: dirs_loop_step runs_append outcomes_append started_def verdict_def
            completed_def Let_def del: dirs_loop.simps)
    next
      case NoExecutable
      with True show ?thesis
        by (simp add: dirs_loop_step runs_append outcomes_append started_def verdict_def
            completed_def Let_def del: dirs_loop.simps)
    next
      case SpawnFailed
      with True show ?thesis
        by (simp add: dirs_loop_step runs_append outcomes_append started_def verdict_def
            completed_def Let_def del: dirs_loop.simps)
    qed
  qed
qed

lemma main_b_judged:
  "outcomes None (out (snd (main_b e (fresh g)))) =
     map (judge e) (filter (completed e) (runs (out (snd (main_b e (fresh g))))))"
proof -
  obtain r w' where loop: "dirs_loop e PIXI_DIRS (fresh g) = (r, w')"
    by (cases "dirs_loop e PIXI_DIRS (fresh g)")
  have "outcomes None (out (fresh g)) =
      map (judge e) (filter (completed e) (runs (out (fresh g))))"
    by (simp add: fresh_def)
  with dirs_loop_judged [of "fresh g" e PIXI_DIRS] loop
  show ?thesis
    by (cases r) (simp_all add: main_b_def emit_def runs_append outcomes_quiet_tail verdict_def)
qed

lemma dirs_loop_runs:
  "runs (out (snd (dirs_loop e ds w))) = runs (out w) @ visits_b e ds (fs w)"
proof (induction ds arbitrary: w)
  case Nil
  show ?case by simp
next
  case (Cons d ds)
  show ?case
  proof (cases "d \<in> dirs (fs w)")
    case False
    with Cons [of "\<lparr>fs = fs w, out = out w @ [Print (DirNotFound d)]\<rparr>"] show ?thesis
      by (simp add: dirs_loop_step runs_append del: dirs_loop.simps)
  next
    case True
    show ?thesis
    proof (cases "pixi e (install_call_b d) (fs w)")
      case (Completed rc err g')
      with True
        Cons [of "\<lparr>fs = g', out = (out w @ [Print (GeneratingFor d),
          Run (install_call_b d) (fs w)]) @ [Print (GeneratedIn d)]\<rparr>"]
      show ?thesis
        by (simp add: dirs_loop_step runs_append Let_def del: dirs_loop.simps)
    next
      case (Expired g')
      with True show ?thesis
        by (simp add: dirs_loop_step runs_append Let_def del: dirs_loop.simps)
    next
      case NoExecutable
      with True show ?thesis
        by (simp add: dirs_loop_step runs_append Let_def del: dirs_loop.simps)
    next
      case SpawnFailed
      with True show ?thesis
        by (simp add: dirs_loop_step runs_append Let_def del: dirs_loop.simps)
    qed
  qed
qed

lemma main_b_runs: "runs (out (snd (main_b e (fresh g)))) = visits_b e PIXI_DIRS g"
proof -
  obtain r w' where loop: "dirs_loop e PIXI_DIRS (fresh g) = (r, w')"
    by (cases "dirs_loop e PIXI_DIRS (fresh g)")
  with dirs_loop_runs [of e PIXI_DIRS "fresh g"] show ?thesis
    by (cases r) (simp_all add: main_b_def emit_def runs_append fresh_def)
qed

lemma dirs_loop_none_exist:
  "dirs (fs w) \<inter> set ds = {} \<Longrightarrow>
   dirs_loop e ds w =
     (None, \<lparr>fs = fs w, out = out w @ map (\<lambda>d. Print (DirNotFound d)) ds\<rparr>)"
proof (induction ds arbitrary: w)
  case Nil
  show ?case by (cases w) simp
next
  case (Cons d ds)
  from Cons.prems have "d \<notin> dirs (fs w)" "dirs (fs w) \<inter> set ds = {}" by auto
  with Cons.IH [of "\<lparr>fs = fs w, out = out w @ [Print (DirNotFound d)]\<rparr>"] show ?case
    by (simp add: dirs_loop_step del: dirs_loop.simps)
qed

lemma main_b_none_exist:
  "dirs g \<inter> set PIXI_DIRS = {} \<Longrightarrow>
   main_b e (fresh g) =
     (Exit 0,
      \<lparr>fs = g, out = map (\<lambda>d. Print (DirNotFound d)) PIXI_DIRS @ [Print AllGenerated]\<rparr>)"
  using dirs_loop_none_exist [of "fresh g" PIXI_DIRS e]
  by (simp add: main_b_def fresh_def emit_def)

lemma exit_status_0: "exit_status r = 0 \<longleftrightarrow> r = Exit 0"
  by (cases r) simp_all

lemma main_a_exit:
  "exit_status (fst (main_a e (fresh g))) =
     (if discovered g \<noteq> [] \<and>
         classify e (discovered g) g = map (\<lambda>d. (d, Success)) (discovered g)
      then 0 else 1)"
  using main_a_end [of e g] main_a_status [of e g] exit_status_0 [of "fst (main_a e (fresh g))"]
  by (cases "exit_status (fst (main_a e (fresh g))) = 0") auto

section \<open>Which fixtures receive an outcome\<close>

lemma lock_loop_raises:
  "fst (lock_loop e ds s f w) = Inl x \<longrightarrow> x = OSError"
  by (induction ds s f w rule: lock_loop_induct [where e = e]) auto

lemma classify_all:
  "(\<forall>d \<in> set ds. \<forall>h. \<not> unlink_fails e d h \<and>
      kind_of (pixi e (install_call d) h) \<in> {KOk, KFail, KExpired}) \<Longrightarrow>
   map fst (classify e ds g) = ds"
proof (induction ds arbitrary: g)
  case Nil
  show ?case by simp
next
  case (Cons d ds)
  from Cons.prems have here: "\<not> unlink_fails e d g"
    "kind_of (pixi e (install_call d) (ready_fs d g)) \<in> {KOk, KFail, KExpired}"
    by auto
  from Cons.prems have rest: "\<forall>d \<in> set ds. \<forall>h. \<not> unlink_fails e d h \<and>
      kind_of (pixi e (install_call d) h) \<in> {KOk, KFail, KExpired}"
    by simp
  from here Cons.IH [OF rest] show ?case
    by (cases "pixi e (install_call d) (ready_fs d g)") simp_all
qed

lemma main_a_cut:
  "map fst (classify e (discovered g) g) = discovered g \<or>
   (\<exists>c h. Run c h \<in> set (out (snd (main_a e (fresh g)))) \<and> pixi e c h = NoExecutable) \<or>
   fst (main_a e (fresh g)) = Uncaught OSError"
proof (cases "discovered g = []")
  case True
  then show ?thesis by simp
next
  case False
  then have ds: "discovered g = glob_manifests g"
    by (simp add: discovered_def split: if_splits)
  obtain r w2 where loop: "lock_loop e (glob_manifests g) 0 0 (begun g) = (r, w2)"
    by (cases "lock_loop e (glob_manifests g) 0 0 (begun g)")
  note res = lock_loop_result [where e = e and ds = "glob_manifests g" and s = 0 and f = 0
      and w = "begun g", unfolded loop]
  show ?thesis
  proof (cases r)
    case (Inl x)
    with lock_loop_raises [of e "glob_manifests g" 0 0 "begun g" x] loop
    have "x = OSError" by simp
    with Inl False loop show ?thesis by (simp add: main_a_some)
  next
    case (Inr res')
    show ?thesis
    proof (cases res')
      case RFalse
      have start: "list_all (on_run (found e)) (out (begun g))" by (simp add: begun_def)
      from lock_loop_missing [of e "begun g" "glob_manifests g" 0 0, unfolded loop,
          rule_format, OF start] RFalse Inr
      obtain pre c h where "out w2 = pre @ [Run c h, Print PixiNotFound, Print VisitPixi]"
        "pixi e c h = NoExecutable"
        by auto
      with RFalse Inr False loop have
        "Run c h \<in> set (out (snd (main_a e (fresh g)))) \<and> pixi e c h = NoExecutable"
        by (simp add: main_a_some emit_def)
      then show ?thesis by blast
    next
      case (RCounts s f)
      with Inr res have "length (classify e (glob_manifests g) g) = length (glob_manifests g)"
        by (simp add: begun_def)
      with classify_prefix [of e "glob_manifests g" g] ds show ?thesis
        by simp
    qed
  qed
qed

lemma dirs_loop_failed:
  "d \<in> dirs (fs w) \<Longrightarrow> pixi e (install_call_b d) (fs w) = Completed rc err h \<Longrightarrow> rc \<noteq> 0 \<Longrightarrow>
   dirs_loop e (d # ds) w =
     (Some (Exit 1),
      \<lparr>fs = h,
       out = out w @ [Print (GeneratingFor d), Run (install_call_b d) (fs w),
                      Print (FailedIn d), Print (ErrorB err)]\<rparr>)"
  by (simp add: dirs_loop_step Let_def del: dirs_loop.simps)

section \<open>The cleaner\<close>

lemma clean_loop_skip:
  "d \<notin> caches (fs w) \<Longrightarrow>
   clean_loop e (d # ds) c f w =
     clean_loop e ds c f \<lparr>fs = fs w, out = out w @ [Print (NoCache d)]\<rparr>"
  by (simp add: clean_body_eq)

lemma clean_loop_failed:
  "d \<in> caches (fs w) \<Longrightarrow> rmtree_fails e d (fs w) \<Longrightarrow>
   clean_loop e (d # ds) c f w =
     clean_loop e ds c (f + 1)
       \<lparr>fs = fs w, out = out w @ [Rmtree d (fs w), Print (DeleteFailed d)]\<rparr>"
  by (simp add: clean_body_eq)

lemma clean_loop_deleted:
  "d \<in> caches (fs w) \<Longrightarrow> \<not> rmtree_fails e d (fs w) \<Longrightarrow>
   clean_loop e (d # ds) c f w =
     clean_loop e ds (c + 1) f
       \<lparr>fs = (fs w)\<lparr>caches := caches (fs w) - {d}\<rparr>,
        out = out w @ [Rmtree d (fs w), Print (DeletedCache d)]\<rparr>"
  by (simp add: clean_body_eq)

lemma clean_loop_counts:
  "fst (fst (clean_loop e ds c f w)) + snd (fst (clean_loop e ds c f w)) +
     length (filter is_skip (out (snd (clean_loop e ds c f w)))) =
   c + f + length (filter is_skip (out w)) + length ds \<and>
   snd (fst (clean_loop e ds c f w)) + length (filter (is_failed_delete e) (out w)) =
   f + length (filter (is_failed_delete e) (out (snd (clean_loop e ds c f w))))"
proof (induction ds arbitrary: c f w)
  case Nil
  show ?case by simp
next
  case (Cons d ds)
  show ?case
  proof (cases "d \<in> caches (fs w)")
    case False
    with Cons [of c f "\<lparr>fs = fs w, out = out w @ [Print (NoCache d)]\<rparr>"] show ?thesis
      by (simp add: clean_loop_skip is_skip_def is_failed_delete_def del: clean_loop.simps)
  next
    case True
    show ?thesis
    proof (cases "rmtree_fails e d (fs w)")
      case bad: True
      with True
        Cons [of c "f + 1" "\<lparr>fs = fs w, out = out w @ [Rmtree d (fs w), Print (DeleteFailed d)]\<rparr>"]
      show ?thesis
        by (simp add: clean_loop_failed is_skip_def is_failed_delete_def del: clean_loop.simps)
    next
      case good: False
      with True
        Cons [of "c + 1" f "\<lparr>fs = (fs w)\<lparr>caches := caches (fs w) - {d}\<rparr>,
          out = out w @ [Rmtree d (fs w), Print (DeletedCache d)]\<rparr>"]
      show ?thesis
        by (simp add: clean_loop_deleted is_skip_def is_failed_delete_def del: clean_loop.simps)
    qed
  qed
qed

lemma cleanup_counts:
  "fst (fst (cleanup_pixi_environments e ds w)) + snd (fst (cleanup_pixi_environments e ds w)) +
     length (filter is_skip (out (snd (cleanup_pixi_environments e ds w)))) =
   length (filter is_skip (out w)) + length ds \<and>
   snd (fst (cleanup_pixi_environments e ds w)) + length (filter (is_failed_delete e) (out w)) =
   length (filter (is_failed_delete e) (out (snd (cleanup_pixi_environments e ds w)))) \<and>
   last (out (snd (cleanup_pixi_environments e ds w))) =
     Print (CleanSummary (fst (fst (cleanup_pixi_environments e ds w)))
       (snd (fst (cleanup_pixi_environments e ds w))))"
  using clean_loop_counts [of e ds 0 0 "emit (Print CleaningUp) w"]
  by (auto simp: cleanup_pixi_environments_def emit_def is_skip_def is_failed_delete_def
      split: prod.splits)

lemma main_a_cleans:
  "Print CleaningUp \<in> set (out (snd (main_a e (fresh g)))) \<longleftrightarrow>
   length (classify e (discovered g) g) = length (discovered g) \<and>
   Success \<in> snd ` set (classify e (discovered g) g)"
proof (cases "discovered g = []")
  case True
  then show ?thesis by (auto simp: main_a_none)
next
  case False
  then have ds: "discovered g = glob_manifests g"
    by (simp add: discovered_def split: if_splits)
  let ?cl = "classify e (glob_manifests g) g"
  obtain r w2 where loop: "lock_loop e (glob_manifests g) 0 0 (begun g) = (r, w2)"
    by (cases "lock_loop e (glob_manifests g) 0 0 (begun g)")
  note res = lock_loop_result [where e = e and ds = "glob_manifests g" and s = 0 and f = 0
      and w = "begun g", unfolded loop]
  have w2: "Print CleaningUp \<notin> set (out w2)"
    using lock_loop_no_cleaning [of e "glob_manifests g" 0 0 "begun g"] loop
    by (simp add: begun_def)
  show ?thesis
  proof (cases r)
    case (Inl x)
    with False loop res ds w2 show ?thesis
      by (simp add: main_a_some begun_def)
  next
    case (Inr res')
    show ?thesis
    proof (cases res')
      case RFalse
      with Inr False loop res ds w2 show ?thesis
        by (simp add: main_a_some begun_def emit_def)
    next
      case (RCounts s f)
      obtain tail where tail: "out (snd (report e (glob_manifests g) s f w2)) = out w2 @ tail"
        "Print CleaningUp \<in> set tail \<longleftrightarrow> 0 < s"
        using report_tail [of e "glob_manifests g" s f w2] by blast
      from RCounts Inr res have len: "length ?cl = length (glob_manifests g)"
        and s: "s = length (filter (\<lambda>p. snd p = Success) ?cl)"
        by (simp_all add: begun_def)
      have "0 < s \<longleftrightarrow> Success \<in> snd ` set ?cl"
        unfolding s by (force simp: filter_empty_conv)
      with RCounts Inr False loop ds w2 tail len show ?thesis
        by (simp add: main_a_some)
    qed
  qed
qed

section \<open>Two runs of the first script\<close>





section \<open>The claims\<close>

text \<open>
  C6. In the first script, when the fixtures root directory does not exist, the locator
  prints an error and returns the empty list, and the run ends with exit status 1 having
  printed three lines and never invoked the tool.
\<close>

theorem missing_root_exits_1:
  "\<not> root_exists g \<Longrightarrow>
   find_pyproject_files (emit (Print Searching) (fresh g)) =
     ([], \<lparr>fs = g, out = [Print Searching, Print FixturesDirNotFound]\<rparr>) \<and>
   main_a e (fresh g) =
     (Exit 1,
      \<lparr>fs = g, out = [Print Searching, Print FixturesDirNotFound, Print NothingToProcess]\<rparr>) \<and>
   exit_status (fst (main_a e (fresh g))) = 1 \<and>
   runs (out (snd (main_a e (fresh g)))) = []"
proof -
  assume absent: "\<not> root_exists g"
  have "find_pyproject_files (emit (Print Searching) (fresh g)) =
      ([], \<lparr>fs = g, out = [Print Searching, Print FixturesDirNotFound]\<rparr>)"
    using absent by (simp add: find_pyproject_files_def emit_def fresh_def)
  moreover have "main_a e (fresh g) =
      (Exit 1,
       \<lparr>fs = g, out = [Print Searching, Print FixturesDirNotFound, Print NothingToProcess]\<rparr>)"
    using absent by (simp add: main_a_none discovered_def)
  ultimately show ?thesis by simp
qed

theorem missing_root_exits_1_witness:
  "\<not> root_exists fs_b \<and>
   main_a env_ok (fresh fs_b) =
     (Exit 1,
      \<lparr>fs = fs_b, out = [Print Searching, Print FixturesDirNotFound, Print NothingToProcess]\<rparr>) \<and>
   runs (out (snd (main_a env_ok (fresh fs_b)))) = []"
proof -
  have h: "\<not> root_exists fs_b" by (simp add: fs_b_def)
  show ?thesis using h missing_root_exits_1 [OF h, of env_ok] by simp
qed

text \<open>
  C1, as amended. In the first script the tool is only ever invoked in a directory that
  holds no lock file, and \<^verbatim>\<open>unlink\<close> is only ever called on a lock file that
  exists. In one pass of the loop that starts with the lock file present, the deletion
  comes before the invocation, which then happens in the filesystem without the lock file
  (when the deletion raises there is no invocation). The second script never deletes a
  lock file.
\<close>

theorem lock_deleted_before_install:
  "(\<forall>c h. Run c h \<in> set (out (snd (main_a e (fresh g)))) \<longrightarrow> cwd c \<notin> locks h) \<and>
   (\<forall>d h. Unlink d h \<in> set (out (snd (main_a e (fresh g)))) \<longrightarrow> d \<in> locks h) \<and>
   (d \<in> locks (fs w) \<longrightarrow>
     (\<exists>rest. out (snd (lock_body e d s f w)) =
        out w @ [Print (Processing d), Print (Location d), Print LockExists, Unlink d (fs w)] @
        (if unlink_fails e d (fs w) then []
         else [Print GeneratingLock, Run (install_call d) ((fs w)\<lparr>locks := locks (fs w) - {d}\<rparr>)] @
              rest))) \<and>
   unlinks (out (snd (main_b e (fresh g)))) = []"
proof -
  have "list_all (on_run (\<lambda>c h. cwd c \<notin> locks h)) (out (snd (main_a e (fresh g))))"
    by (rule main_a_all) (simp_all add: install_call_def ready_fs_def)
  moreover have "list_all (on_unlink (\<lambda>d h. d \<in> locks h)) (out (snd (main_a e (fresh g))))"
    by (rule main_a_all) simp_all
  moreover have "list_all (on_unlink (\<lambda>d g. False)) (out (snd (main_b e (fresh g))))"
    by (rule main_b_all) simp_all
  moreover have "d \<in> locks (fs w) \<longrightarrow>
     (\<exists>rest. out (snd (lock_body e d s f w)) =
        out w @ [Print (Processing d), Print (Location d), Print LockExists, Unlink d (fs w)] @
        (if unlink_fails e d (fs w) then []
         else [Print GeneratingLock, Run (install_call d) ((fs w)\<lparr>locks := locks (fs w) - {d}\<rparr>)] @
              rest))"
    using lock_body_present [of d w e s f] unfolding ready_fs_def by blast
  ultimately show ?thesis
    by (simp add: all_on_run all_on_unlink unlinks_none)
qed

theorem lock_deleted_before_install_witness:
  "Run (install_call ''a'') (fs_a\<lparr>locks := {}\<rparr>) \<in> set (out (snd (main_a env_ok (fresh fs_a)))) \<and>
   Unlink ''a'' fs_a \<in> set (out (snd (main_a env_ok (fresh fs_a)))) \<and>
   ''a'' \<in> locks (fs (fresh fs_a)) \<and> cwd (install_call ''a'') \<notin> locks (fs_a\<lparr>locks := {}\<rparr>) \<and>
   ''a'' \<in> locks fs_a \<and>
   unlinks (out (snd (main_b env_ok (fresh fs_a)))) = []"
proof -
  have r: "Run (install_call ''a'') (fs_a\<lparr>locks := {}\<rparr>) \<in> set (out (snd (main_a env_ok (fresh fs_a))))"
    by (simp add: run_defs fs_a_def env_ok_def installs_def)
  have u: "Unlink ''a'' fs_a \<in> set (out (snd (main_a env_ok (fresh fs_a))))"
    by (simp add: run_defs fs_a_def env_ok_def installs_def)
  have l: "''a'' \<in> locks (fs (fresh fs_a))"
    by (simp add: fresh_def fs_a_def)
  show ?thesis
    using r u l lock_deleted_before_install [of env_ok fs_a "''a''" "fresh fs_a" 0 0]
    by blast
qed

text \<open>
  C1 as stated fails for the second script: with a lock file present in its first
  directory, it invokes the tool there with the lock file still in place, deletes nothing,
  and ends with status 0.
\<close>

theorem second_script_keeps_lock:
  "''test-pull-request-pixi'' \<in> locks fs_b \<and>
   hd (runs (out (snd (main_b env_ok (fresh fs_b))))) =
     (install_call_b ''test-pull-request-pixi'', fs_b) \<and>
   unlinks (out (snd (main_b env_ok (fresh fs_b)))) = [] \<and>
   fst (main_b env_ok (fresh fs_b)) = Exit 0"
  by (simp add: run_defs fs_b_def env_ok_def installs_def)

text \<open>
  C3. In either script, an invocation that finds no executable ends the run at once.
  From any state of the loop, the pass in which the tool is not found prints the two lines
  of the install notice and leaves the loop without processing the fixtures that remain:
  the first script's loop returns \<^verbatim>\<open>False\<close>, on which \<open>main\<close> prints that the
  generation was aborted and exits with status 1; the second script exits with status 1
  from inside the loop. In particular, when the tool is missing at the first fixture the
  whole run is determined: the lines printed before the first invocation, the invocation,
  the install notice, exit status 1. In every run, an invocation that found no executable
  is followed by nothing but these lines, the filesystem is as it was at that invocation,
  and the exit status is 1.
\<close>

theorem missing_tool_aborts:
  "(Run c h \<in> set (out (snd (main_a e (fresh g)))) \<and> pixi e c h = NoExecutable \<longrightarrow>
      exit_status (fst (main_a e (fresh g))) = 1 \<and>
      fs (snd (main_a e (fresh g))) = h \<and>
      (\<exists>pre. out (snd (main_a e (fresh g))) =
         pre @ [Run c h, Print PixiNotFound, Print VisitPixi, Print Aborted])) \<and>
   (\<not> (d \<in> locks (fs w) \<and> unlink_fails e d (fs w)) \<and>
    pixi e (install_call d) (ready_fs d (fs w)) = NoExecutable \<longrightarrow>
      lock_loop e (d # ds) s f w =
        (Inr RFalse,
         \<lparr>fs = ready_fs d (fs w),
          out = out w @ attempt d (fs w) @ [Print PixiNotFound, Print VisitPixi]\<rparr>)) \<and>
   (root_exists g \<and> glob_manifests g = d # ds \<and> \<not> (d \<in> locks g \<and> unlink_fails e d g) \<and>
    pixi e (install_call d) (ready_fs d g) = NoExecutable \<longrightarrow>
      main_a e (fresh g) =
        (Exit 1,
         \<lparr>fs = ready_fs d g,
          out = [Print Searching, Print (FoundFiles (length (d # ds)))] @ attempt d g @
                [Print PixiNotFound, Print VisitPixi, Print Aborted]\<rparr>)) \<and>
   (Run c' h' \<in> set (out (snd (main_b e (fresh g')))) \<and> pixi e c' h' = NoExecutable \<longrightarrow>
      exit_status (fst (main_b e (fresh g'))) = 1 \<and>
      fs (snd (main_b e (fresh g'))) = h' \<and>
      (\<exists>pre. out (snd (main_b e (fresh g'))) =
         pre @ [Run c' h', Print PixiNotFoundB, Print InstallCurl])) \<and>
   (b \<in> dirs (fs v) \<and> pixi e (install_call_b b) (fs v) = NoExecutable \<longrightarrow>
      dirs_loop e (b # bs) v =
        (Some (Exit 1),
         \<lparr>fs = fs v,
          out = out v @ [Print (GeneratingFor b), Run (install_call_b b) (fs v),
                         Print PixiNotFoundB, Print InstallCurl]\<rparr>)) \<and>
   (filter (\<lambda>x. x \<in> dirs g') PIXI_DIRS = b # rest \<and>
    pixi e (install_call_b b) g' = NoExecutable \<longrightarrow>
      main_b e (fresh g') =
        (Exit 1,
         \<lparr>fs = g',
          out = map (\<lambda>x. Print (DirNotFound x)) (takeWhile (\<lambda>x. x \<notin> dirs g') PIXI_DIRS) @
                [Print (GeneratingFor b), Run (install_call_b b) g',
                 Print PixiNotFoundB, Print InstallCurl]\<rparr>))"
proof (intro conjI)
  show "Run c h \<in> set (out (snd (main_a e (fresh g)))) \<and> pixi e c h = NoExecutable \<longrightarrow>
      exit_status (fst (main_a e (fresh g))) = 1 \<and>
      fs (snd (main_a e (fresh g))) = h \<and>
      (\<exists>pre. out (snd (main_a e (fresh g))) =
         pre @ [Run c h, Print PixiNotFound, Print VisitPixi, Print Aborted])"
  proof (rule impI, elim conjE)
    assume run: "Run c h \<in> set (out (snd (main_a e (fresh g))))"
      and nx: "pixi e c h = NoExecutable"
    then have "\<not> list_all (on_run (found e)) (out (snd (main_a e (fresh g))))"
      by (auto simp: all_on_run found_def)
    with main_a_missing [of e g] obtain pre c0 h0 where
      res: "fst (main_a e (fresh g)) = Exit 1" "fs (snd (main_a e (fresh g))) = h0"
      and tr: "out (snd (main_a e (fresh g))) =
        pre @ [Run c0 h0, Print PixiNotFound, Print VisitPixi, Print Aborted]"
      and pre: "list_all (on_run (found e)) pre"
      by blast
    from run have "Run c h \<in> set (pre @ Run c0 h0 #
        [Print PixiNotFound, Print VisitPixi, Print Aborted])"
      by (simp add: tr)
    from only_run_missing [OF this nx pre] have "c = c0 \<and> h = h0"
      by simp
    with res tr show "exit_status (fst (main_a e (fresh g))) = 1 \<and>
        fs (snd (main_a e (fresh g))) = h \<and>
        (\<exists>pre. out (snd (main_a e (fresh g))) =
           pre @ [Run c h, Print PixiNotFound, Print VisitPixi, Print Aborted])"
      by simp
  qed
next
  show "\<not> (d \<in> locks (fs w) \<and> unlink_fails e d (fs w)) \<and>
    pixi e (install_call d) (ready_fs d (fs w)) = NoExecutable \<longrightarrow>
      lock_loop e (d # ds) s f w =
        (Inr RFalse,
         \<lparr>fs = ready_fs d (fs w),
          out = out w @ attempt d (fs w) @ [Print PixiNotFound, Print VisitPixi]\<rparr>)"
    using lock_loop_absent [of d w e ds s f] by blast
next
  show "root_exists g \<and> glob_manifests g = d # ds \<and> \<not> (d \<in> locks g \<and> unlink_fails e d g) \<and>
    pixi e (install_call d) (ready_fs d g) = NoExecutable \<longrightarrow>
      main_a e (fresh g) =
        (Exit 1,
         \<lparr>fs = ready_fs d g,
          out = [Print Searching, Print (FoundFiles (length (d # ds)))] @ attempt d g @
                [Print PixiNotFound, Print VisitPixi, Print Aborted]\<rparr>)"
    using main_a_absent [of g d ds e] by blast
next
  show "Run c' h' \<in> set (out (snd (main_b e (fresh g')))) \<and> pixi e c' h' = NoExecutable \<longrightarrow>
      exit_status (fst (main_b e (fresh g'))) = 1 \<and>
      fs (snd (main_b e (fresh g'))) = h' \<and>
      (\<exists>pre. out (snd (main_b e (fresh g'))) =
         pre @ [Run c' h', Print PixiNotFoundB, Print InstallCurl])"
  proof (rule impI, elim conjE)
    assume run: "Run c' h' \<in> set (out (snd (main_b e (fresh g'))))"
      and nx: "pixi e c' h' = NoExecutable"
    then have "\<not> list_all (on_run (found e)) (out (snd (main_b e (fresh g'))))"
      by (auto simp: all_on_run found_def)
    with main_b_missing [of e g'] obtain pre c0 h0 where
      res: "fst (main_b e (fresh g')) = Exit 1" "fs (snd (main_b e (fresh g'))) = h0"
      and tr: "out (snd (main_b e (fresh g'))) =
        pre @ [Run c0 h0, Print PixiNotFoundB, Print InstallCurl]"
      and pre: "list_all (on_run (found e)) pre"
      by blast
    from run have "Run c' h' \<in> set (pre @ Run c0 h0 #
        [Print PixiNotFoundB, Print InstallCurl])"
      by (simp add: tr)
    from only_run_missing [OF this nx pre] have "c' = c0 \<and> h' = h0"
      by simp
    with res tr show "exit_status (fst (main_b e (fresh g'))) = 1 \<and>
        fs (snd (main_b e (fresh g'))) = h' \<and>
        (\<exists>pre. out (snd (main_b e (fresh g'))) =
           pre @ [Run c' h', Print PixiNotFoundB, Print InstallCurl])"
      by simp
  qed
next
  show "b \<in> dirs (fs v) \<and> pixi e (install_call_b b) (fs v) = NoExecutable \<longrightarrow>
      dirs_loop e (b # bs) v =
        (Some (Exit 1),
         \<lparr>fs = fs v,
          out = out v @ [Print (GeneratingFor b), Run (install_call_b b) (fs v),
                         Print PixiNotFoundB, Print InstallCurl]\<rparr>)"
    using dirs_loop_absent [of b v e bs] by blast
next
  show "filter (\<lambda>x. x \<in> dirs g') PIXI_DIRS = b # rest \<and>
    pixi e (install_call_b b) g' = NoExecutable \<longrightarrow>
      main_b e (fresh g') =
        (Exit 1,
         \<lparr>fs = g',
          out = map (\<lambda>x. Print (DirNotFound x)) (takeWhile (\<lambda>x. x \<notin> dirs g') PIXI_DIRS) @
                [Print (GeneratingFor b), Run (install_call_b b) g',
                 Print PixiNotFoundB, Print InstallCurl]\<rparr>)"
    using main_b_absent [of g' b rest e] by blast
qed

theorem missing_tool_aborts_witness:
  "Run (install_call ''a'') (fs_a\<lparr>locks := {}\<rparr>) \<in>
     set (out (snd (main_a env_missing (fresh fs_a)))) \<and>
   pixi env_missing (install_call ''a'') (fs_a\<lparr>locks := {}\<rparr>) = NoExecutable \<and>
   root_exists fs_a \<and> glob_manifests fs_a = [''a'', ''b''] \<and>
   \<not> (''a'' \<in> locks fs_a \<and> unlink_fails env_missing ''a'' fs_a) \<and>
   main_a env_missing (fresh fs_a) =
     (Exit 1,
      \<lparr>fs = fs_a\<lparr>locks := {}\<rparr>,
       out = [Print Searching, Print (FoundFiles 2), Print (Processing ''a''),
              Print (Location ''a''), Print LockExists, Unlink ''a'' fs_a, Print GeneratingLock,
              Run (install_call ''a'') (fs_a\<lparr>locks := {}\<rparr>),
              Print PixiNotFound, Print VisitPixi, Print Aborted]\<rparr>) \<and>
   exit_status (fst (main_a env_missing (fresh fs_a))) = 1 \<and>
   Run (install_call_b ''test-pull-request-pixi'') fs_b \<in>
     set (out (snd (main_b env_missing (fresh fs_b)))) \<and>
   pixi env_missing (install_call_b ''test-pull-request-pixi'') fs_b = NoExecutable \<and>
   ''test-pull-request-pixi'' \<in> dirs fs_b \<and>
   filter (\<lambda>x. x \<in> dirs fs_b) PIXI_DIRS = PIXI_DIRS \<and>
   main_b env_missing (fresh fs_b) =
     (Exit 1,
      \<lparr>fs = fs_b,
       out = [Print (GeneratingFor ''test-pull-request-pixi''),
              Run (install_call_b ''test-pull-request-pixi'') fs_b,
              Print PixiNotFoundB, Print InstallCurl]\<rparr>) \<and>
   exit_status (fst (main_b env_missing (fresh fs_b))) = 1 \<and>
   lock_loop env_missing [''a'', ''b''] 0 0 (fresh fs_a) =
     (Inr RFalse,
      \<lparr>fs = fs_a\<lparr>locks := {}\<rparr>,
       out = attempt ''a'' fs_a @ [Print PixiNotFound, Print VisitPixi]\<rparr>) \<and>
   dirs_loop env_missing PIXI_DIRS (fresh fs_b) =
     (Some (Exit 1),
      \<lparr>fs = fs_b,
       out = [Print (GeneratingFor ''test-pull-request-pixi''),
              Run (install_call_b ''test-pull-request-pixi'') fs_b,
              Print PixiNotFoundB, Print InstallCurl]\<rparr>)"
proof -
  note inst = missing_tool_aborts
    [where e = env_missing and g = fs_a and c = "install_call ''a''"
      and h = "fs_a\<lparr>locks := {}\<rparr>" and d = "''a''" and ds = "[''b'']" and s = 0 and f = 0
      and w = "fresh fs_a" and g' = fs_b and c' = "install_call_b ''test-pull-request-pixi''"
      and h' = fs_b and b = "''test-pull-request-pixi''"
      and bs = "[''test-release-trigger-pixi'', ''test-package-manager-commands'']"
      and rest = "[''test-release-trigger-pixi'', ''test-package-manager-commands'']"
      and v = "fresh fs_b"]
  have ra: "Run (install_call ''a'') (fs_a\<lparr>locks := {}\<rparr>) \<in>
      set (out (snd (main_a env_missing (fresh fs_a))))"
    by (simp add: run_defs fs_a_def env_missing_def)
  have na: "pixi env_missing (install_call ''a'') (fs_a\<lparr>locks := {}\<rparr>) = NoExecutable"
    "pixi env_missing (install_call ''a'') (ready_fs ''a'' fs_a) = NoExecutable"
    "pixi env_missing (install_call ''a'') (ready_fs ''a'' (fs (fresh fs_a))) = NoExecutable"
    by (simp_all add: env_missing_def)
  have ha: "root_exists fs_a" "glob_manifests fs_a = [''a'', ''b'']"
    "\<not> (''a'' \<in> locks fs_a \<and> unlink_fails env_missing ''a'' fs_a)"
    "\<not> (''a'' \<in> locks (fs (fresh fs_a)) \<and> unlink_fails env_missing ''a'' (fs (fresh fs_a)))"
    by (simp_all add: fs_a_def env_missing_def)
  have rb: "Run (install_call_b ''test-pull-request-pixi'') fs_b \<in>
      set (out (snd (main_b env_missing (fresh fs_b))))"
    by (simp add: run_defs fs_b_def env_missing_def)
  have nb: "pixi env_missing (install_call_b ''test-pull-request-pixi'') fs_b = NoExecutable"
    "pixi env_missing (install_call_b ''test-pull-request-pixi'') (fs (fresh fs_b)) =
       NoExecutable"
    by (simp_all add: env_missing_def)
  have hb: "''test-pull-request-pixi'' \<in> dirs fs_b"
    "''test-pull-request-pixi'' \<in> dirs (fs (fresh fs_b))"
    "filter (\<lambda>x. x \<in> dirs fs_b) PIXI_DIRS = PIXI_DIRS"
    "filter (\<lambda>x. x \<in> dirs fs_b) PIXI_DIRS =
       ''test-pull-request-pixi'' #
         [''test-release-trigger-pixi'', ''test-package-manager-commands'']"
    "PIXI_DIRS = ''test-pull-request-pixi'' #
         [''test-release-trigger-pixi'', ''test-package-manager-commands'']"
    by (simp_all add: fs_b_def fresh_def PIXI_DIRS_def)
  have ea: "exit_status (fst (main_a env_missing (fresh fs_a))) = 1"
    using ra na(1) inst by blast
  have eb: "exit_status (fst (main_b env_missing (fresh fs_b))) = 1"
    using rb nb(1) inst by blast
  have ma: "main_a env_missing (fresh fs_a) =
      (Exit 1,
       \<lparr>fs = ready_fs ''a'' fs_a,
        out = [Print Searching, Print (FoundFiles (length [''a'', ''b'']))] @
              attempt ''a'' fs_a @ [Print PixiNotFound, Print VisitPixi, Print Aborted]\<rparr>)"
    using ha(1,2,3) na(2) inst by blast
  have mb: "main_b env_missing (fresh fs_b) =
      (Exit 1,
       \<lparr>fs = fs_b,
        out = map (\<lambda>x. Print (DirNotFound x))
                (takeWhile (\<lambda>x. x \<notin> dirs fs_b) PIXI_DIRS) @
              [Print (GeneratingFor ''test-pull-request-pixi''),
               Run (install_call_b ''test-pull-request-pixi'') fs_b,
               Print PixiNotFoundB, Print InstallCurl]\<rparr>)"
    using hb(4) nb(1) inst by blast
  have la: "lock_loop env_missing (''a'' # [''b'']) 0 0 (fresh fs_a) =
      (Inr RFalse,
       \<lparr>fs = ready_fs ''a'' (fs (fresh fs_a)),
        out = out (fresh fs_a) @ attempt ''a'' (fs (fresh fs_a)) @
              [Print PixiNotFound, Print VisitPixi]\<rparr>)"
    using ha(4) na(3) inst by blast
  have lb: "dirs_loop env_missing (''test-pull-request-pixi'' #
        [''test-release-trigger-pixi'', ''test-package-manager-commands'']) (fresh fs_b) =
      (Some (Exit 1),
       \<lparr>fs = fs (fresh fs_b),
        out = out (fresh fs_b) @
          [Print (GeneratingFor ''test-pull-request-pixi''),
           Run (install_call_b ''test-pull-request-pixi'') (fs (fresh fs_b)),
           Print PixiNotFoundB, Print InstallCurl]\<rparr>)"
    using hb(2) nb(2) inst by blast
  have ma': "main_a env_missing (fresh fs_a) =
     (Exit 1,
      \<lparr>fs = fs_a\<lparr>locks := {}\<rparr>,
       out = [Print Searching, Print (FoundFiles 2), Print (Processing ''a''),
              Print (Location ''a''), Print LockExists, Unlink ''a'' fs_a, Print GeneratingLock,
              Run (install_call ''a'') (fs_a\<lparr>locks := {}\<rparr>),
              Print PixiNotFound, Print VisitPixi, Print Aborted]\<rparr>)"
    unfolding ma by (simp add: attempt_def preamble_def ready_fs_def fs_a_def)
  have mb': "main_b env_missing (fresh fs_b) =
     (Exit 1,
      \<lparr>fs = fs_b,
       out = [Print (GeneratingFor ''test-pull-request-pixi''),
              Run (install_call_b ''test-pull-request-pixi'') fs_b,
              Print PixiNotFoundB, Print InstallCurl]\<rparr>)"
    unfolding mb by (simp add: PIXI_DIRS_def fs_b_def)
  have la': "lock_loop env_missing [''a'', ''b''] 0 0 (fresh fs_a) =
     (Inr RFalse,
      \<lparr>fs = fs_a\<lparr>locks := {}\<rparr>,
       out = attempt ''a'' fs_a @ [Print PixiNotFound, Print VisitPixi]\<rparr>)"
    unfolding la by (simp add: fresh_def ready_fs_def fs_a_def)
  have lb': "dirs_loop env_missing PIXI_DIRS (fresh fs_b) =
     (Some (Exit 1),
      \<lparr>fs = fs_b,
       out = [Print (GeneratingFor ''test-pull-request-pixi''),
              Run (install_call_b ''test-pull-request-pixi'') fs_b,
              Print PixiNotFoundB, Print InstallCurl]\<rparr>)"
    unfolding hb(5) lb by (simp add: fresh_def)
  show ?thesis
    using ra na(1) ha(1,2,3) ma' ea rb nb(1) hb(1,3) mb' eb la' lb'
    by (intro conjI)
qed

text \<open>
  C7. Every invocation the first script makes is \<^verbatim>\<open>pixi install\<close> with a wait of 300
  seconds and stdout and stderr captured as text. When the wait runs out for a fixture,
  the pass prints the timeout notice, the fixture's outcome is a timeout, and the loop
  goes on with the next fixture and a failure counter one higher.
\<close>

theorem timeout_300_counts_as_failure:
  "(\<forall>c h. Run c h \<in> set (out (snd (main_a e (fresh g)))) \<longrightarrow>
      args c = [''pixi'', ''install''] \<and> timeout c = Some 300 \<and> capture_output c \<and>
      text_mode c \<and> \<not> check c) \<and>
   (\<not> (d \<in> locks (fs w) \<and> unlink_fails e d (fs w)) \<and>
    pixi e (install_call d) (ready_fs d (fs w)) = Expired g' \<longrightarrow>
      lock_loop e (d # ds) s f w =
        lock_loop e ds s (f + 1)
          \<lparr>fs = g', out = out w @ attempt d (fs w) @ [Print TimeoutNotice]\<rparr> \<and>
      outcomes cur (attempt d (fs w) @ [Print TimeoutNotice]) = [(d, Timeout)])"
proof -
  have "list_all (on_run (\<lambda>c h. args c = [''pixi'', ''install''] \<and> timeout c = Some 300 \<and>
      capture_output c \<and> text_mode c \<and> \<not> check c)) (out (snd (main_a e (fresh g))))"
    by (rule main_a_all) (simp_all add: install_call_def)
  moreover have "\<not> (d \<in> locks (fs w) \<and> unlink_fails e d (fs w)) \<and>
    pixi e (install_call d) (ready_fs d (fs w)) = Expired g' \<longrightarrow>
      lock_loop e (d # ds) s f w =
        lock_loop e ds s (f + 1)
          \<lparr>fs = g', out = out w @ attempt d (fs w) @ [Print TimeoutNotice]\<rparr>"
    by (cases rule: lock_loop_cases [of d w e ds s f]) auto
  moreover have "outcomes cur (attempt d (fs w) @ [Print TimeoutNotice]) = [(d, Timeout)]"
    by (simp add: started_def verdict_def)
  ultimately show ?thesis
    by (simp add: all_on_run)
qed

theorem timeout_300_counts_as_failure_witness:
  "Run (install_call ''b'') (fs_a\<lparr>locks := {}\<rparr>) \<in>
     set (out (snd (main_a env_slow (fresh fs_a)))) \<and>
   timeout (install_call ''b'') = Some 300 \<and>
   \<not> (''b'' \<in> locks (fs (fresh fs_a)) \<and> unlink_fails env_slow ''b'' (fs (fresh fs_a))) \<and>
   pixi env_slow (install_call ''b'') (ready_fs ''b'' (fs (fresh fs_a))) = Expired fs_a \<and>
   lock_loop env_slow [''b''] 0 0 (fresh fs_a) =
     (Inr (RCounts 0 1),
      \<lparr>fs = fs_a, out = attempt ''b'' fs_a @ [Print TimeoutNotice]\<rparr>)"
proof -
  have r: "Run (install_call ''b'') (fs_a\<lparr>locks := {}\<rparr>) \<in>
      set (out (snd (main_a env_slow (fresh fs_a))))"
    by (simp add: run_defs fs_a_def env_slow_def)
  have u: "\<not> (''b'' \<in> locks (fs (fresh fs_a)) \<and> unlink_fails env_slow ''b'' (fs (fresh fs_a)))"
    by (simp add: fresh_def fs_a_def)
  have x: "pixi env_slow (install_call ''b'') (ready_fs ''b'' (fs (fresh fs_a))) = Expired fs_a"
    by (simp add: env_slow_def ready_fs_def fresh_def fs_a_def)
  note inst = timeout_300_counts_as_failure
    [of env_slow fs_a "''b''" "fresh fs_a" fs_a "[]" 0 0 None]
  have a: "timeout (install_call ''b'') = Some 300"
    using r inst by blast
  have l: "lock_loop env_slow [''b''] 0 0 (fresh fs_a) =
      lock_loop env_slow [] 0 (0 + 1)
        \<lparr>fs = fs_a, out = out (fresh fs_a) @ attempt ''b'' (fs (fresh fs_a)) @
          [Print TimeoutNotice]\<rparr>"
    using u x inst by blast
  have l': "lock_loop env_slow [''b''] 0 0 (fresh fs_a) =
     (Inr (RCounts 0 1), \<lparr>fs = fs_a, out = attempt ''b'' fs_a @ [Print TimeoutNotice]\<rparr>)"
    unfolding l by (simp add: fresh_def)
  show ?thesis
    using r a u x l' by blast
qed

text \<open>
  C9. In the first script, when the lock file of a fixture exists, its deletion does not
  raise and the invocation then finds no executable, the loop returns \<^verbatim>\<open>False\<close> in a
  filesystem from which the lock file is gone; when this happens at the first fixture of
  a run, the run ends with status 1 and the lock file deleted.
\<close>

theorem abort_leaves_lock_deleted:
  "(d \<in> locks (fs w) \<and> \<not> unlink_fails e d (fs w) \<and>
    pixi e (install_call d) ((fs w)\<lparr>locks := locks (fs w) - {d}\<rparr>) = NoExecutable \<longrightarrow>
      lock_loop e (d # ds) s f w =
        (Inr RFalse,
         \<lparr>fs = (fs w)\<lparr>locks := locks (fs w) - {d}\<rparr>,
          out = out w @
            [Print (Processing d), Print (Location d), Print LockExists, Unlink d (fs w),
             Print GeneratingLock, Run (install_call d) ((fs w)\<lparr>locks := locks (fs w) - {d}\<rparr>),
             Print PixiNotFound, Print VisitPixi]\<rparr>)) \<and>
   (root_exists g \<and> glob_manifests g = d # ds \<and> d \<in> locks g \<and> \<not> unlink_fails e d g \<and>
    pixi e (install_call d) (g\<lparr>locks := locks g - {d}\<rparr>) = NoExecutable \<longrightarrow>
      exit_status (fst (main_a e (fresh g))) = 1 \<and>
      fs (snd (main_a e (fresh g))) = g\<lparr>locks := locks g - {d}\<rparr> \<and>
      d \<notin> locks (fs (snd (main_a e (fresh g)))))"
proof -
  have loop: "lock_loop e (d # ds) s f w =
        (Inr RFalse,
         \<lparr>fs = (fs w)\<lparr>locks := locks (fs w) - {d}\<rparr>,
          out = out w @
            [Print (Processing d), Print (Location d), Print LockExists, Unlink d (fs w),
             Print GeneratingLock, Run (install_call d) ((fs w)\<lparr>locks := locks (fs w) - {d}\<rparr>),
             Print PixiNotFound, Print VisitPixi]\<rparr>)"
    if "d \<in> locks (fs w)" "\<not> unlink_fails e d (fs w)"
      "pixi e (install_call d) ((fs w)\<lparr>locks := locks (fs w) - {d}\<rparr>) = NoExecutable"
    for w s f
    using that
    by (cases rule: lock_loop_cases [of d w e ds s f])
      (auto simp: ready_fs_def attempt_def preamble_def)
  have "exit_status (fst (main_a e (fresh g))) = 1 \<and>
      fs (snd (main_a e (fresh g))) = g\<lparr>locks := locks g - {d}\<rparr> \<and>
      d \<notin> locks (fs (snd (main_a e (fresh g))))"
    if "root_exists g" "glob_manifests g = d # ds" "d \<in> locks g" "\<not> unlink_fails e d g"
      "pixi e (install_call d) (g\<lparr>locks := locks g - {d}\<rparr>) = NoExecutable"
    using that loop [of "begun g" 0 0]
    by (simp add: main_a_some discovered_def begun_def emit_def)
  with loop show ?thesis by blast
qed

theorem abort_leaves_lock_deleted_witness:
  "''a'' \<in> locks fs_a \<and> \<not> unlink_fails env_missing ''a'' fs_a \<and>
   pixi env_missing (install_call ''a'') (fs_a\<lparr>locks := locks fs_a - {''a''}\<rparr>) = NoExecutable \<and>
   root_exists fs_a \<and> glob_manifests fs_a = [''a'', ''b''] \<and>
   exit_status (fst (main_a env_missing (fresh fs_a))) = 1 \<and>
   ''a'' \<notin> locks (fs (snd (main_a env_missing (fresh fs_a))))"
proof -
  have h: "''a'' \<in> locks fs_a" "\<not> unlink_fails env_missing ''a'' fs_a"
    "pixi env_missing (install_call ''a'') (fs_a\<lparr>locks := locks fs_a - {''a''}\<rparr>) = NoExecutable"
    "root_exists fs_a" "glob_manifests fs_a = [''a'', ''b'']"
    by (simp_all add: fs_a_def env_missing_def)
  show ?thesis
    using h abort_leaves_lock_deleted [of "''a''" "fresh fs_a" env_missing "[''b'']" 0 0 fs_a]
    by simp
qed

text \<open>
  C10. In the first script, a lock deletion that raises ends the run with the uncaught
  exception: the \<^verbatim>\<open>unlink\<close> call is the last event of the run, right after the three
  lines printed for that fixture, so that the fixture has no outcome, and no line of the
  final summary is printed; the same holds for the loop of \<^verbatim>\<open>generate_lock_files\<close>,
  from any state.
\<close>

theorem failed_unlink_escapes:
  "(Unlink d h \<in> set (out (snd (main_a e (fresh g)))) \<and> unlink_fails e d h \<longrightarrow>
      fst (main_a e (fresh g)) = Uncaught OSError \<and>
      filter is_summary (out (snd (main_a e (fresh g)))) = [] \<and>
      (\<exists>pre. out (snd (main_a e (fresh g))) =
         pre @ [Print (Processing d), Print (Location d), Print LockExists, Unlink d h] \<and>
         outcomes None (out (snd (main_a e (fresh g)))) = outcomes None pre)) \<and>
   (d \<in> locks (fs w) \<and> unlink_fails e d (fs w) \<longrightarrow>
      lock_loop e (d # ds) s f w =
        (Inl OSError,
         \<lparr>fs = fs w,
          out = out w @
            [Print (Processing d), Print (Location d), Print LockExists, Unlink d (fs w)]\<rparr>))"
proof (intro conjI)
  show "Unlink d h \<in> set (out (snd (main_a e (fresh g)))) \<and> unlink_fails e d h \<longrightarrow>
      fst (main_a e (fresh g)) = Uncaught OSError \<and>
      filter is_summary (out (snd (main_a e (fresh g)))) = [] \<and>
      (\<exists>pre. out (snd (main_a e (fresh g))) =
         pre @ [Print (Processing d), Print (Location d), Print LockExists, Unlink d h] \<and>
         outcomes None (out (snd (main_a e (fresh g)))) = outcomes None pre)"
  proof (rule impI, elim conjE)
  assume ev: "Unlink d h \<in> set (out (snd (main_a e (fresh g))))" and bad: "unlink_fails e d h"
  then have "\<not> list_all (on_unlink (deletable e)) (out (snd (main_a e (fresh g))))"
    by (auto simp: all_on_unlink deletable_def)
  with main_a_stuck [of e g] obtain pre d' where
    res: "fst (main_a e (fresh g)) = Uncaught OSError"
      "filter is_summary (out (snd (main_a e (fresh g)))) = []"
    and tr: "out (snd (main_a e (fresh g))) =
      pre @ [Print (Processing d'), Print (Location d'), Print LockExists,
             Unlink d' (fs (snd (main_a e (fresh g))))]"
    and pre: "list_all (on_unlink (deletable e)) pre"
    by blast
  from ev have "Unlink d h \<in> set (pre @ [Print (Processing d'), Print (Location d'),
      Print LockExists, Unlink d' (fs (snd (main_a e (fresh g))))])"
    by (simp add: tr)
  from only_unlink_stuck [OF this bad pre]
  have same: "d = d' \<and> h = fs (snd (main_a e (fresh g)))" .
  have "outcomes None (pre @ [Print (Processing d), Print (Location d), Print LockExists,
      Unlink d h]) = outcomes None pre"
    by (simp add: outcomes_append started_def verdict_def)
  with res tr same show "fst (main_a e (fresh g)) = Uncaught OSError \<and>
      filter is_summary (out (snd (main_a e (fresh g)))) = [] \<and>
      (\<exists>pre. out (snd (main_a e (fresh g))) =
         pre @ [Print (Processing d), Print (Location d), Print LockExists, Unlink d h] \<and>
         outcomes None (out (snd (main_a e (fresh g)))) = outcomes None pre)"
    by auto
  qed
next
  show "d \<in> locks (fs w) \<and> unlink_fails e d (fs w) \<longrightarrow> lock_loop e (d # ds) s f w =
        (Inl OSError,
         \<lparr>fs = fs w,
          out = out w @
            [Print (Processing d), Print (Location d), Print LockExists, Unlink d (fs w)]\<rparr>)"
    by (cases rule: lock_loop_cases [of d w e ds s f]) (auto simp: preamble_def)
qed

theorem failed_unlink_escapes_witness:
  "Unlink ''a'' fs_a \<in> set (out (snd (main_a env_stuck (fresh fs_a)))) \<and>
   unlink_fails env_stuck ''a'' fs_a \<and>
   fst (main_a env_stuck (fresh fs_a)) = Uncaught OSError \<and>
   filter is_summary (out (snd (main_a env_stuck (fresh fs_a)))) = [] \<and>
   outcomes None (out (snd (main_a env_stuck (fresh fs_a)))) = []"
proof -
  have u: "Unlink ''a'' fs_a \<in> set (out (snd (main_a env_stuck (fresh fs_a))))"
    by (simp add: run_defs fs_a_def env_stuck_def)
  have b: "unlink_fails env_stuck ''a'' fs_a"
    by (simp add: env_stuck_def)
  have o: "outcomes None (out (snd (main_a env_stuck (fresh fs_a)))) = []"
    by (simp add: run_defs fs_a_def env_stuck_def started_def verdict_def)
  show ?thesis
    using u b o failed_unlink_escapes [of "''a''" fs_a env_stuck fs_a]
    by blast
qed

text \<open>
  C2, as amended. In the first script the outcomes printed are those of the loop run on
  the discovered fixtures, and the exit status is 0 exactly when at least one fixture was
  discovered and every discovered fixture has the outcome success; it is 1 otherwise (no
  manifest found, tool missing, a failure or a timeout, an uncaught exception). In the
  second script the exit status is 0 exactly when every invocation it makes exits with
  code 0, and 1 otherwise; it makes an invocation only in the listed directories that
  exist, so that when none of them exists it prints one line for each and exits with
  status 0.
\<close>

theorem exit_status_of_a_run:
  "outcomes None (out (snd (main_a e (fresh g)))) = classify e (discovered g) g \<and>
   exit_status (fst (main_a e (fresh g))) =
     (if discovered g \<noteq> [] \<and>
         classify e (discovered g) g = map (\<lambda>d. (d, Success)) (discovered g)
      then 0 else 1) \<and>
   runs (out (snd (main_b e (fresh g')))) = visits_b e PIXI_DIRS g' \<and>
   exit_status (fst (main_b e (fresh g'))) =
     (if list_all (tool_ok e) (visits_b e PIXI_DIRS g') then 0 else 1) \<and>
   (dirs g' \<inter> set PIXI_DIRS = {} \<longrightarrow>
      main_b e (fresh g') =
        (Exit 0,
         \<lparr>fs = g',
          out = map (\<lambda>d. Print (DirNotFound d)) PIXI_DIRS @ [Print AllGenerated]\<rparr>))"
  using main_a_outcomes [of e g] main_a_exit [of e g] main_b_runs [of e g']
    main_b_end [of e g'] main_b_none_exist [of g' e]
  by auto

theorem exit_status_of_a_run_witness:
  "discovered fs_a \<noteq> [] \<and>
   classify env_ok (discovered fs_a) fs_a = [(''a'', Success), (''b'', Success)] \<and>
   outcomes None (out (snd (main_a env_ok (fresh fs_a)))) =
     [(''a'', Success), (''b'', Success)] \<and>
   exit_status (fst (main_a env_ok (fresh fs_a))) = 0 \<and>
   classify env_fail (discovered fs_a) fs_a = [(''a'', Failure), (''b'', Failure)] \<and>
   exit_status (fst (main_a env_fail (fresh fs_a))) = 1 \<and>
   dirs fs_a \<inter> set PIXI_DIRS = {} \<and>
   main_b env_ok (fresh fs_a) =
     (Exit 0,
      \<lparr>fs = fs_a, out = map (\<lambda>d. Print (DirNotFound d)) PIXI_DIRS @ [Print AllGenerated]\<rparr>) \<and>
   length (runs (out (snd (main_b env_ok (fresh fs_b))))) = 3 \<and>
   exit_status (fst (main_b env_ok (fresh fs_b))) = 0 \<and>
   runs (out (snd (main_b env_fail (fresh fs_b)))) =
     [(install_call_b ''test-pull-request-pixi'', fs_b)] \<and>
   exit_status (fst (main_b env_fail (fresh fs_b))) = 1"
proof -
  note ok_a = exit_status_of_a_run [where e = env_ok and g = fs_a and g' = fs_a]
  note ok_b = exit_status_of_a_run [where e = env_ok and g = fs_a and g' = fs_b]
  note fail = exit_status_of_a_run [where e = env_fail and g = fs_a and g' = fs_b]
  have d: "discovered fs_a = [''a'', ''b'']" "discovered fs_a \<noteq> []"
    by (simp_all add: discovered_def fs_a_def)
  have c1: "classify env_ok (discovered fs_a) fs_a = [(''a'', Success), (''b'', Success)]"
    unfolding d by (simp add: env_ok_def installs_def fs_a_def ready_fs_def install_call_def)
  have c2: "classify env_fail (discovered fs_a) fs_a = [(''a'', Failure), (''b'', Failure)]"
    unfolding d by (simp add: env_fail_def fs_a_def ready_fs_def install_call_def)
  have n: "dirs fs_a \<inter> set PIXI_DIRS = {}"
    by (simp add: fs_a_def)
  have v1: "visits_b env_ok PIXI_DIRS fs_b =
      [(install_call_b ''test-pull-request-pixi'', fs_b),
       (install_call_b ''test-release-trigger-pixi'',
        fs_b\<lparr>locks := {''test-pull-request-pixi''}, caches := {''test-pull-request-pixi''}\<rparr>),
       (install_call_b ''test-package-manager-commands'',
        fs_b\<lparr>locks := {''test-release-trigger-pixi'', ''test-pull-request-pixi''},
             caches := {''test-release-trigger-pixi'', ''test-pull-request-pixi''}\<rparr>)]"
    by (simp add: PIXI_DIRS_def env_ok_def installs_def fs_b_def install_call_b_def)
  have v2: "visits_b env_fail PIXI_DIRS fs_b = [(install_call_b ''test-pull-request-pixi'', fs_b)]"
    by (simp add: PIXI_DIRS_def env_fail_def fs_b_def install_call_b_def)
  have t1: "list_all (tool_ok env_ok) (visits_b env_ok PIXI_DIRS fs_b)"
    unfolding v1 by (simp add: tool_ok_def env_ok_def installs_def)
  have t2: "\<not> list_all (tool_ok env_fail) (visits_b env_fail PIXI_DIRS fs_b)"
    unfolding v2 by (simp add: tool_ok_def env_fail_def)
  have o1: "outcomes None (out (snd (main_a env_ok (fresh fs_a)))) =
      [(''a'', Success), (''b'', Success)]"
    using ok_a c1 by simp
  have e1: "exit_status (fst (main_a env_ok (fresh fs_a))) = 0"
    using ok_a c1 d by simp
  have e2: "exit_status (fst (main_a env_fail (fresh fs_a))) = 1"
    using fail c2 d by simp
  have m: "main_b env_ok (fresh fs_a) =
     (Exit 0,
      \<lparr>fs = fs_a, out = map (\<lambda>d. Print (DirNotFound d)) PIXI_DIRS @ [Print AllGenerated]\<rparr>)"
    using ok_a n by blast
  have r1: "length (runs (out (snd (main_b env_ok (fresh fs_b))))) = 3"
    using ok_b v1 by simp
  have e3: "exit_status (fst (main_b env_ok (fresh fs_b))) = 0"
    using ok_b t1 by simp
  have r2: "runs (out (snd (main_b env_fail (fresh fs_b)))) =
      [(install_call_b ''test-pull-request-pixi'', fs_b)]"
    using fail v2 by simp
  have e4: "exit_status (fst (main_b env_fail (fresh fs_b))) = 1"
    using fail t2 by simp
  show ?thesis
    using d(2) c1 o1 e1 c2 e2 n m r1 e3 r2 e4 by (intro conjI)
qed

text \<open>
  C2 as stated fails for the second script: when none of the listed fixture directories
  exists it invokes nothing, prints that all lock files were generated and exits with
  status 0.
\<close>

theorem no_directory_exits_0:
  "dirs fs_a \<inter> set PIXI_DIRS = {} \<and>
   runs (out (snd (main_b env_ok (fresh fs_a)))) = [] \<and>
   last (out (snd (main_b env_ok (fresh fs_a)))) = Print AllGenerated \<and>
   exit_status (fst (main_b env_ok (fresh fs_a))) = 0"
  by (simp add: run_defs fs_a_def)

text \<open>
  C4, as amended. In the first script the outcomes printed are those of the loop run on
  the discovered fixtures: one outcome for each fixture of a prefix of the discovered
  list, in order. When no lock deletion raises and every invocation returns or runs out of
  time, every discovered fixture has exactly one outcome. The run is cut short, leaving
  the remaining fixtures without an outcome, only when the tool is not found or when an
  exception escapes (a lock deletion that raises, a spawn that fails otherwise). In the
  second script every invocation that ran to an exit code has exactly one outcome, success
  or failure, in order; but the run is also cut short by the first fixture that fails: the
  pass prints the failure and its error text and exits with status 1 without processing
  the directories that remain.
\<close>

theorem one_outcome_per_fixture:
  "outcomes None (out (snd (main_a e (fresh g)))) = classify e (discovered g) g \<and>
   map fst (outcomes None (out (snd (main_a e (fresh g))))) =
     take (length (outcomes None (out (snd (main_a e (fresh g)))))) (discovered g) \<and>
   ((\<forall>d \<in> set (discovered g). \<forall>h. \<not> unlink_fails e d h \<and>
       kind_of (pixi e (install_call d) h) \<in> {KOk, KFail, KExpired}) \<longrightarrow>
      map fst (outcomes None (out (snd (main_a e (fresh g))))) = discovered g) \<and>
   (map fst (outcomes None (out (snd (main_a e (fresh g))))) = discovered g \<or>
    (\<exists>c h. Run c h \<in> set (out (snd (main_a e (fresh g)))) \<and> pixi e c h = NoExecutable) \<or>
    fst (main_a e (fresh g)) = Uncaught OSError) \<and>
   runs (out (snd (main_b e (fresh g')))) = visits_b e PIXI_DIRS g' \<and>
   outcomes None (out (snd (main_b e (fresh g')))) =
     map (judge e) (filter (completed e) (visits_b e PIXI_DIRS g')) \<and>
   (b \<in> dirs (fs v) \<and> pixi e (install_call_b b) (fs v) = Completed rc err h \<and> rc \<noteq> 0 \<longrightarrow>
      dirs_loop e (b # bs) v =
        (Some (Exit 1),
         \<lparr>fs = h,
          out = out v @ [Print (GeneratingFor b), Run (install_call_b b) (fs v),
                         Print (FailedIn b), Print (ErrorB err)]\<rparr>))"
proof -
  note oc = main_a_outcomes [of e g]
  have "map fst (classify e (discovered g) g) =
      take (length (classify e (discovered g) g)) (discovered g)"
    by (rule classify_prefix)
  moreover have "(\<forall>d \<in> set (discovered g). \<forall>h. \<not> unlink_fails e d h \<and>
       kind_of (pixi e (install_call d) h) \<in> {KOk, KFail, KExpired}) \<longrightarrow>
      map fst (classify e (discovered g) g) = discovered g"
    using classify_all [of "discovered g" e g] by blast
  moreover note main_a_cut [of e g]
  moreover note main_b_runs [of e g']
  moreover have "outcomes None (out (snd (main_b e (fresh g')))) =
     map (judge e) (filter (completed e) (visits_b e PIXI_DIRS g'))"
    using main_b_judged [of e g'] main_b_runs [of e g'] by simp
  moreover have "b \<in> dirs (fs v) \<and> pixi e (install_call_b b) (fs v) = Completed rc err h \<and>
      rc \<noteq> 0 \<longrightarrow>
      dirs_loop e (b # bs) v =
        (Some (Exit 1),
         \<lparr>fs = h,
          out = out v @ [Print (GeneratingFor b), Run (install_call_b b) (fs v),
                         Print (FailedIn b), Print (ErrorB err)]\<rparr>)"
    using dirs_loop_failed [of b v e rc err h bs] by blast
  ultimately show ?thesis
    unfolding oc by (intro conjI) (rule refl)
qed

theorem one_outcome_per_fixture_witness:
  "discovered fs_a = [''a'', ''b''] \<and>
   map fst (outcomes None (out (snd (main_a env_slow (fresh fs_a))))) = discovered fs_a \<and>
   outcomes None (out (snd (main_a env_slow (fresh fs_a)))) =
     [(''a'', Timeout), (''b'', Timeout)] \<and>
   outcomes None (out (snd (main_a env_missing (fresh fs_a)))) = [] \<and>
   fst (main_a env_missing (fresh fs_a)) \<noteq> Uncaught OSError \<and>
   (\<exists>c h. Run c h \<in> set (out (snd (main_a env_missing (fresh fs_a)))) \<and>
      pixi env_missing c h = NoExecutable) \<and>
   ''test-pull-request-pixi'' \<in> dirs (fs (fresh fs_b)) \<and>
   pixi env_fail (install_call_b ''test-pull-request-pixi'') (fs (fresh fs_b)) =
     Completed 1 ''unsolvable'' fs_b \<and>
   dirs_loop env_fail PIXI_DIRS (fresh fs_b) =
     (Some (Exit 1),
      \<lparr>fs = fs_b,
       out = [Print (GeneratingFor ''test-pull-request-pixi''),
              Run (install_call_b ''test-pull-request-pixi'') fs_b,
              Print (FailedIn ''test-pull-request-pixi''), Print (ErrorB ''unsolvable'')]\<rparr>) \<and>
   outcomes None (out (snd (main_b env_fail (fresh fs_b)))) =
     [(''test-pull-request-pixi'', Failure)] \<and>
   outcomes None (out (snd (main_b env_ok (fresh fs_b)))) =
     [(''test-pull-request-pixi'', Success), (''test-release-trigger-pixi'', Success),
      (''test-package-manager-commands'', Success)]"
proof -
  note slow = one_outcome_per_fixture [where e = env_slow and g = fs_a and g' = fs_b]
  note miss = one_outcome_per_fixture [where e = env_missing and g = fs_a and g' = fs_b]
  note fail = one_outcome_per_fixture
    [where e = env_fail and g = fs_a and g' = fs_b and b = "''test-pull-request-pixi''"
      and bs = "[''test-release-trigger-pixi'', ''test-package-manager-commands'']"
      and v = "fresh fs_b" and rc = 1 and err = "''unsolvable''" and h = fs_b]
  note ok = one_outcome_per_fixture [where e = env_ok and g = fs_a and g' = fs_b]
  have d: "discovered fs_a = [''a'', ''b'']"
    by (simp add: discovered_def fs_a_def)
  have hyp: "\<forall>d \<in> set (discovered fs_a). \<forall>h. \<not> unlink_fails env_slow d h \<and>
      kind_of (pixi env_slow (install_call d) h) \<in> {KOk, KFail, KExpired}"
    by (simp add: env_slow_def)
  have c1: "classify env_slow (discovered fs_a) fs_a = [(''a'', Timeout), (''b'', Timeout)]"
    unfolding d by (simp add: env_slow_def fs_a_def)
  have c2: "classify env_missing (discovered fs_a) fs_a = []"
    unfolding d by (simp add: env_missing_def)
  have o1: "outcomes None (out (snd (main_a env_slow (fresh fs_a)))) =
      [(''a'', Timeout), (''b'', Timeout)]"
    using slow c1 by simp
  have all: "map fst (outcomes None (out (snd (main_a env_slow (fresh fs_a))))) =
      discovered fs_a"
    using slow hyp by blast
  have o2: "outcomes None (out (snd (main_a env_missing (fresh fs_a)))) = []"
    using miss c2 by simp
  have nu: "fst (main_a env_missing (fresh fs_a)) \<noteq> Uncaught OSError"
    by (simp add: run_defs fs_a_def env_missing_def)
  have cut: "\<exists>c h. Run c h \<in> set (out (snd (main_a env_missing (fresh fs_a)))) \<and>
      pixi env_missing c h = NoExecutable"
    using miss o2 nu d by auto
  have hb: "''test-pull-request-pixi'' \<in> dirs (fs (fresh fs_b))"
    "pixi env_fail (install_call_b ''test-pull-request-pixi'') (fs (fresh fs_b)) =
       Completed 1 ''unsolvable'' fs_b"
    "(1 :: int) \<noteq> 0"
    "PIXI_DIRS = ''test-pull-request-pixi'' #
       [''test-release-trigger-pixi'', ''test-package-manager-commands'']"
    by (simp_all add: fresh_def fs_b_def env_fail_def PIXI_DIRS_def)
  have lb: "dirs_loop env_fail (''test-pull-request-pixi'' #
        [''test-release-trigger-pixi'', ''test-package-manager-commands'']) (fresh fs_b) =
      (Some (Exit 1),
       \<lparr>fs = fs_b,
        out = out (fresh fs_b) @
          [Print (GeneratingFor ''test-pull-request-pixi''),
           Run (install_call_b ''test-pull-request-pixi'') (fs (fresh fs_b)),
           Print (FailedIn ''test-pull-request-pixi''), Print (ErrorB ''unsolvable'')]\<rparr>)"
    using hb(1,2,3) fail by blast
  have lb': "dirs_loop env_fail PIXI_DIRS (fresh fs_b) =
     (Some (Exit 1),
      \<lparr>fs = fs_b,
       out = [Print (GeneratingFor ''test-pull-request-pixi''),
              Run (install_call_b ''test-pull-request-pixi'') fs_b,
              Print (FailedIn ''test-pull-request-pixi''), Print (ErrorB ''unsolvable'')]\<rparr>)"
    unfolding hb(4) lb by (simp add: fresh_def)
  have v1: "visits_b env_fail PIXI_DIRS fs_b = [(install_call_b ''test-pull-request-pixi'', fs_b)]"
    by (simp add: PIXI_DIRS_def env_fail_def fs_b_def install_call_b_def)
  have o3: "outcomes None (out (snd (main_b env_fail (fresh fs_b)))) =
      [(''test-pull-request-pixi'', Failure)]"
    using fail unfolding v1
    by (simp add: judge_def completed_def tool_ok_def env_fail_def install_call_b_def)
  have v2: "visits_b env_ok PIXI_DIRS fs_b =
      [(install_call_b ''test-pull-request-pixi'', fs_b),
       (install_call_b ''test-release-trigger-pixi'',
        fs_b\<lparr>locks := {''test-pull-request-pixi''}, caches := {''test-pull-request-pixi''}\<rparr>),
       (install_call_b ''test-package-manager-commands'',
        fs_b\<lparr>locks := {''test-release-trigger-pixi'', ''test-pull-request-pixi''},
             caches := {''test-release-trigger-pixi'', ''test-pull-request-pixi''}\<rparr>)]"
    by (simp add: PIXI_DIRS_def env_ok_def installs_def fs_b_def install_call_b_def)
  have o4: "outcomes None (out (snd (main_b env_ok (fresh fs_b)))) =
     [(''test-pull-request-pixi'', Success), (''test-release-trigger-pixi'', Success),
      (''test-package-manager-commands'', Success)]"
    using ok unfolding v2
    by (simp add: judge_def completed_def tool_ok_def env_ok_def installs_def install_call_b_def)
  show ?thesis
    using d all o1 o2 nu cut hb(1,2) lb' o3 o4 by (intro conjI)
qed

text \<open>
  C4 as stated fails for the second script: with all three directories present and a tool
  that is found but exits with code 1, the run ends with status 1 after the first
  fixture; it made one invocation, which did find the executable, and the other two
  fixtures have no outcome.
\<close>

theorem failure_stops_second_script:
  "dirs fs_b = set PIXI_DIRS \<and> length PIXI_DIRS = 3 \<and>
   runs (out (snd (main_b env_fail (fresh fs_b)))) =
     [(install_call_b ''test-pull-request-pixi'', fs_b)] \<and>
   pixi env_fail (install_call_b ''test-pull-request-pixi'') fs_b \<noteq> NoExecutable \<and>
   outcomes None (out (snd (main_b env_fail (fresh fs_b)))) =
     [(''test-pull-request-pixi'', Failure)] \<and>
   fst (main_b env_fail (fresh fs_b)) = Exit 1"
  by (simp add: run_defs fs_b_def env_fail_def started_def verdict_def)

text \<open>
  C5, as amended. The first script runs the cleaner exactly when its loop went through all
  discovered fixtures and at least one of them has the outcome success. For a fixture
  without a \<^verbatim>\<open>.pixi\<close> folder the cleaner prints a line and goes on with both of its
  counters unchanged: it keeps no count of such fixtures. A deletion that raises is
  printed and adds one to the failed counter, a deletion that does not raise adds one to
  the cleaned counter, and in both cases the cleaner goes on with the next fixture. The
  cleaner always returns its two counters, having visited every fixture: the cleaned and
  the failed fixtures and the lines printed for fixtures without a folder add up to the
  number of fixtures, the failed counter is the number of deletions that raised, and the
  last line printed shows the two counters.
\<close>

theorem cleaner_counts_cleaned_and_failed:
  "(Print CleaningUp \<in> set (out (snd (main_a e (fresh g)))) \<longleftrightarrow>
      length (classify e (discovered g) g) = length (discovered g) \<and>
      Success \<in> snd ` set (classify e (discovered g) g)) \<and>
   (d \<notin> caches (fs w) \<longrightarrow>
      clean_loop e (d # ds) c f w =
        clean_loop e ds c f \<lparr>fs = fs w, out = out w @ [Print (NoCache d)]\<rparr>) \<and>
   (d \<in> caches (fs w) \<and> rmtree_fails e d (fs w) \<longrightarrow>
      clean_loop e (d # ds) c f w =
        clean_loop e ds c (f + 1)
          \<lparr>fs = fs w, out = out w @ [Rmtree d (fs w), Print (DeleteFailed d)]\<rparr>) \<and>
   (d \<in> caches (fs w) \<and> \<not> rmtree_fails e d (fs w) \<longrightarrow>
      clean_loop e (d # ds) c f w =
        clean_loop e ds (c + 1) f
          \<lparr>fs = (fs w)\<lparr>caches := caches (fs w) - {d}\<rparr>,
           out = out w @ [Rmtree d (fs w), Print (DeletedCache d)]\<rparr>) \<and>
   fst (fst (cleanup_pixi_environments e ds w)) + snd (fst (cleanup_pixi_environments e ds w)) +
     length (filter is_skip (out (snd (cleanup_pixi_environments e ds w)))) =
   length (filter is_skip (out w)) + length ds \<and>
   snd (fst (cleanup_pixi_environments e ds w)) + length (filter (is_failed_delete e) (out w)) =
   length (filter (is_failed_delete e) (out (snd (cleanup_pixi_environments e ds w)))) \<and>
   last (out (snd (cleanup_pixi_environments e ds w))) =
     Print (CleanSummary (fst (fst (cleanup_pixi_environments e ds w)))
       (snd (fst (cleanup_pixi_environments e ds w))))"
  using main_a_cleans [of e g] clean_loop_skip [of d w e ds c f]
    clean_loop_failed [of d w e ds c f] clean_loop_deleted [of d w e ds c f]
    cleanup_counts [of e ds w]
  by blast

theorem cleaner_counts_cleaned_and_failed_witness:
  "classify env_ok (discovered fs_a) fs_a = [(''a'', Success), (''b'', Success)] \<and>
   Print CleaningUp \<in> set (out (snd (main_a env_ok (fresh fs_a)))) \<and>
   classify env_fail (discovered fs_a) fs_a = [(''a'', Failure), (''b'', Failure)] \<and>
   Print CleaningUp \<notin> set (out (snd (main_a env_fail (fresh fs_a)))) \<and>
   ''a'' \<notin> caches (fs (fresh fs_a)) \<and>
   clean_loop env_ok [''a''] 0 0 (fresh fs_a) =
     ((0, 0), \<lparr>fs = fs_a, out = [Print (NoCache ''a'')]\<rparr>) \<and>
   ''b'' \<in> caches (fs (fresh (fs_a\<lparr>caches := {''b''}\<rparr>))) \<and>
   rmtree_fails env_stuck ''b'' (fs (fresh (fs_a\<lparr>caches := {''b''}\<rparr>))) \<and>
   clean_loop env_stuck [''b'', ''a''] 0 0 (fresh (fs_a\<lparr>caches := {''b''}\<rparr>)) =
     ((0, 1),
      \<lparr>fs = fs_a\<lparr>caches := {''b''}\<rparr>,
       out = [Rmtree ''b'' (fs_a\<lparr>caches := {''b''}\<rparr>), Print (DeleteFailed ''b''),
              Print (NoCache ''a'')]\<rparr>) \<and>
   \<not> rmtree_fails env_ok ''b'' (fs (fresh (fs_a\<lparr>caches := {''b''}\<rparr>))) \<and>
   clean_loop env_ok [''b'', ''a''] 0 0 (fresh (fs_a\<lparr>caches := {''b''}\<rparr>)) =
     ((1, 0),
      \<lparr>fs = fs_a\<lparr>caches := {}\<rparr>,
       out = [Rmtree ''b'' (fs_a\<lparr>caches := {''b''}\<rparr>), Print (DeletedCache ''b''),
              Print (NoCache ''a'')]\<rparr>) \<and>
   fst (cleanup_pixi_environments env_stuck [''b'', ''a''] (fresh (fs_a\<lparr>caches := {''b''}\<rparr>))) =
     (0, 1) \<and>
   length (filter is_skip
     (out (snd (cleanup_pixi_environments env_stuck [''b'', ''a'']
        (fresh (fs_a\<lparr>caches := {''b''}\<rparr>)))))) = 1"
proof -
  let ?g = "fs_a\<lparr>caches := {''b''}\<rparr>"
  note ok = cleaner_counts_cleaned_and_failed
    [where e = env_ok and g = fs_a and d = "''a''" and ds = "[]" and c = 0 and f = 0
      and w = "fresh fs_a"]
  note fail = cleaner_counts_cleaned_and_failed
    [where e = env_fail and g = fs_a and d = "''a''" and ds = "[]" and c = 0 and f = 0
      and w = "fresh fs_a"]
  note stuck1 = cleaner_counts_cleaned_and_failed
    [where e = env_stuck and g = fs_a and d = "''b''" and ds = "[''a'']" and c = 0 and f = 0
      and w = "fresh ?g"]
  note stuck2 = cleaner_counts_cleaned_and_failed
    [where e = env_stuck and g = fs_a and d = "''a''" and ds = "[''b'', ''a'']" and c = 0
      and f = 0 and w = "fresh ?g"]
  note del = cleaner_counts_cleaned_and_failed
    [where e = env_ok and g = fs_a and d = "''b''" and ds = "[''a'']" and c = 0 and f = 0
      and w = "fresh ?g"]
  have d: "discovered fs_a = [''a'', ''b'']"
    by (simp add: discovered_def fs_a_def)
  have c1: "classify env_ok (discovered fs_a) fs_a = [(''a'', Success), (''b'', Success)]"
    unfolding d by (simp add: env_ok_def installs_def fs_a_def ready_fs_def install_call_def)
  have c2: "classify env_fail (discovered fs_a) fs_a = [(''a'', Failure), (''b'', Failure)]"
    unfolding d by (simp add: env_fail_def fs_a_def ready_fs_def install_call_def)
  have p1: "Print CleaningUp \<in> set (out (snd (main_a env_ok (fresh fs_a))))"
    using ok c1 d by simp
  have p2: "Print CleaningUp \<notin> set (out (snd (main_a env_fail (fresh fs_a))))"
    using fail c2 d by simp
  have h1: "''a'' \<notin> caches (fs (fresh fs_a))"
    by (simp add: fresh_def fs_a_def)
  have h2: "''b'' \<in> caches (fs (fresh ?g))" "rmtree_fails env_stuck ''b'' (fs (fresh ?g))"
    "\<not> rmtree_fails env_ok ''b'' (fs (fresh ?g))"
    by (simp_all add: fresh_def env_stuck_def env_ok_def)
  have l1: "clean_loop env_ok [''a''] 0 0 (fresh fs_a) =
      clean_loop env_ok [] 0 0
        \<lparr>fs = fs (fresh fs_a), out = out (fresh fs_a) @ [Print (NoCache ''a'')]\<rparr>"
    using ok h1 by blast
  have l1': "clean_loop env_ok [''a''] 0 0 (fresh fs_a) =
     ((0, 0), \<lparr>fs = fs_a, out = [Print (NoCache ''a'')]\<rparr>)"
    unfolding l1 by (simp add: fresh_def)
  have l2: "clean_loop env_stuck (''b'' # [''a'']) 0 0 (fresh ?g) =
      clean_loop env_stuck [''a''] 0 (0 + 1)
        \<lparr>fs = fs (fresh ?g),
         out = out (fresh ?g) @ [Rmtree ''b'' (fs (fresh ?g)), Print (DeleteFailed ''b'')]\<rparr>"
    using stuck1 h2(1,2) by blast
  have l2': "clean_loop env_stuck [''b'', ''a''] 0 0 (fresh ?g) =
     ((0, 1),
      \<lparr>fs = ?g,
       out = [Rmtree ''b'' ?g, Print (DeleteFailed ''b''), Print (NoCache ''a'')]\<rparr>)"
    unfolding l2 by (simp add: fresh_def clean_body_eq fs_a_def)
  have l3: "clean_loop env_ok (''b'' # [''a'']) 0 0 (fresh ?g) =
      clean_loop env_ok [''a''] (0 + 1) 0
        \<lparr>fs = (fs (fresh ?g))\<lparr>caches := caches (fs (fresh ?g)) - {''b''}\<rparr>,
         out = out (fresh ?g) @ [Rmtree ''b'' (fs (fresh ?g)), Print (DeletedCache ''b'')]\<rparr>"
    using del h2(1,3) by blast
  have l3': "clean_loop env_ok [''b'', ''a''] 0 0 (fresh ?g) =
     ((1, 0),
      \<lparr>fs = fs_a\<lparr>caches := {}\<rparr>,
       out = [Rmtree ''b'' ?g, Print (DeletedCache ''b''), Print (NoCache ''a'')]\<rparr>)"
    unfolding l3 by (simp add: fresh_def clean_body_eq fs_a_def)
  have r: "fst (cleanup_pixi_environments env_stuck [''b'', ''a''] (fresh ?g)) = (0, 1)"
    by (simp add: cleanup_pixi_environments_def l2' emit_def fresh_def
        l2' [unfolded fresh_def] clean_body_eq env_stuck_def fs_a_def)
  have k: "length (filter is_skip
      (out (snd (cleanup_pixi_environments env_stuck [''b'', ''a''] (fresh ?g))))) = 1"
    using stuck2 r by (simp add: fresh_def)
  show ?thesis
    using c1 p1 c2 p2 h1 l1' h2 l2' l3' r k by (intro conjI)
qed

text \<open>
  C5 as stated fails where it says that a fixture without a cache folder is counted as
  skipped: the cleaner has two counters, cleaned and failed, and after it skipped a
  fixture both are 0, in the value it returns as in the line it prints; what it returns is
  what it returns for no fixture at all.
\<close>

theorem skipped_fixture_is_not_counted:
  "''a'' \<notin> caches fs_a \<and>
   cleanup_pixi_environments env_ok [''a''] (fresh fs_a) =
     ((0, 0),
      \<lparr>fs = fs_a,
       out = [Print CleaningUp, Print (NoCache ''a''), Print (CleanSummary 0 0)]\<rparr>) \<and>
   fst (cleanup_pixi_environments env_ok [''a''] (fresh fs_a)) =
     fst (cleanup_pixi_environments env_ok [] (fresh fs_a))"
  by (simp add: run_defs fs_a_def)



lemma env_stuck_deterministic: "deterministic env_stuck"
  by (simp add: deterministic_def env_stuck_def installs_def)


end
